theory Spec2Isabelle
  imports Main "HOL-Library.AList"
begin

section \<open>Values, exceptions and the world\<close>

text \<open>
  The documents of the pipeline are the Python objects that the \<open>json\<close> module reads and
  writes: \<open>None\<close>, booleans, integers, floats, strings, lists and dictionaries with string
  keys. A dictionary is an association list in insertion order. Floating point arithmetic
  is outside the embedding: a float is carried as the text that \<open>json.dump\<close> writes for it,
  which is its \<open>repr\<close> (\<open>5.0\<close> is \<open>JFloat ''5.0''\<close>); the pipeline only moves floats around.
  Text is a list of 8-bit characters, read as the code points 0 to 255, so a document
  with a string that has a code point above 255 is not a value of the type.
\<close>

datatype json =
    JNull
  | JBool bool
  | JInt int
  | JFloat string
  | JStr string
  | JArr "json list"
  | JObj "(string \<times> json) list"

text \<open>
  The exception classes that the modelled operations raise; all of them are subclasses of
  Python's \<open>Exception\<close>, and \<open>Exception\<close> itself stands for any other one that an injected
  component may raise.
\<close>

datatype exn =
    FileNotFoundError string
  | FileExistsError string
  | NotADirectoryError string
  | IsADirectoryError string
  | JSONDecodeError
  | KeyError string
  | TypeError
  | ValueError
  | Exception string

text \<open>
  The lines printed on standard output. Each constructor is one \<open>print\<close> call of the
  source, with the values that its f-string interpolates.
\<close>

datatype message =
    FetchedAndSaved                   \<comment> \<open>extract.py, line 52\<close>
  | FailedToFetch int                 \<comment> \<open>extract.py, line 54: the status code\<close>
  | ProcessedSaved string             \<comment> \<open>transform.py, line 24: the output path\<close>
  | TransformationSuccessful          \<comment> \<open>transform.py, line 47\<close>
  | MissingKey string                 \<comment> \<open>transform.py, line 50: the key of the KeyError\<close>
  | ErrorDuringTransformation exn     \<comment> \<open>transform.py, line 67: the exception caught\<close>

text \<open>
  The world that the program acts on: the regular files with their text, the directories,
  what was printed, and the exceptions that ended a worker thread (which \<open>threading\<close>
  reports on standard error). Paths are compared as text, so the model covers paths in
  normal form.
\<close>

record world =
  files :: "string \<Rightarrow> string option"
  dirs :: "string set"
  stdout :: "message list"
  stderr :: "exn list"

type_synonym 'a io = "world \<Rightarrow> (exn + 'a) \<times> world"

definition io_return :: "'a \<Rightarrow> 'a io" where
  "io_return x w = (Inr x, w)"

definition io_raise :: "exn \<Rightarrow> 'a io" where
  "io_raise e w = (Inl e, w)"

definition io_bind :: "'a io \<Rightarrow> ('a \<Rightarrow> 'b io) \<Rightarrow> 'b io" where
  "io_bind m f w = (case m w of (Inl e, w') \<Rightarrow> (Inl e, w') | (Inr x, w') \<Rightarrow> f x w')"

definition io_result :: "exn + 'a \<Rightarrow> 'a io" where
  "io_result r w = (r, w)"

text \<open>
  \<open>try: body except ...: handler\<close>. The handler answers \<open>None\<close> for an exception that no
  \<open>except\<close> clause matches, which then propagates.
\<close>

definition io_try_except :: "'a io \<Rightarrow> (exn \<Rightarrow> 'a io option) \<Rightarrow> 'a io" where
  "io_try_except body handler w =
     (case body w of
        (Inr x, w') \<Rightarrow> (Inr x, w')
      | (Inl e, w') \<Rightarrow> (case handler e of None \<Rightarrow> (Inl e, w') | Some h \<Rightarrow> h w'))"

definition py_print :: "message \<Rightarrow> unit io" where
  "py_print m w = (Inr (), w\<lparr>stdout := stdout w @ [m]\<rparr>)"

section \<open>The storage capability\<close>

text \<open>\<open>os.path.dirname\<close> of \<open>posixpath\<close>: the text before the last slash, without trailing
  slashes unless it consists of slashes only.\<close>

definition os_path_dirname :: "string \<Rightarrow> string" where
  "os_path_dirname p =
     (let head = rev (dropWhile (\<lambda>c. c \<noteq> CHR ''/'') (rev p))
      in if head \<noteq> [] \<and> \<not> list_all (\<lambda>c. c = CHR ''/'') head
         then rev (dropWhile (\<lambda>c. c = CHR ''/'') (rev head))
         else head)"

definition os_path_exists :: "world \<Rightarrow> string \<Rightarrow> bool" where
  "os_path_exists w p = (files w p \<noteq> None \<or> p \<in> dirs w)"

text \<open>The directories above a path: its prefixes that end before a slash.\<close>

definition ancestors :: "string \<Rightarrow> string list" where
  "ancestors p = map (\<lambda>i. take i p) (filter (\<lambda>i. p ! i = CHR ''/'') [1..<length p])"

text \<open>
  \<open>os.makedirs(name, exist_ok=True)\<close>: the empty name is refused, a regular file in the way
  is an error, an existing directory is not; otherwise the directory and the missing
  directories above it exist afterwards.
\<close>

definition os_makedirs :: "string \<Rightarrow> unit io" where
  "os_makedirs name w =
     (if name = [] then (Inl (FileNotFoundError name), w)
      else if list_ex (\<lambda>a. files w a \<noteq> None) (ancestors name)
      then (Inl (NotADirectoryError name), w)
      else if files w name \<noteq> None then (Inl (FileExistsError name), w)
      else (Inr (), w\<lparr>dirs := dirs w \<union> set (ancestors name) \<union> {name}\<rparr>))"

text \<open>\<open>open(path, "w")\<close> followed by writing the text: the file is replaced as a whole.\<close>

definition write_text :: "string \<Rightarrow> string \<Rightarrow> unit io" where
  "write_text path txt w =
     (if path = [] then (Inl (FileNotFoundError path), w)
      else if path \<in> dirs w then (Inl (IsADirectoryError path), w)
      else if os_path_dirname path \<noteq> [] \<and> os_path_dirname path \<notin> dirs w
      then (Inl (FileNotFoundError path), w)
      else (Inr (), w\<lparr>files := (files w)(path \<mapsto> txt)\<rparr>))"

text \<open>\<open>open(path, "r")\<close> followed by reading the whole text.\<close>

definition read_text :: "string \<Rightarrow> string io" where
  "read_text path w =
     (case files w path of
        Some txt \<Rightarrow> (Inr txt, w)
      | None \<Rightarrow> if path \<in> dirs w then (Inl (IsADirectoryError path), w)
                else (Inl (FileNotFoundError path), w))"

section \<open>The json module\<close>

text \<open>
  The repository calls \<open>json.dump(data, f, indent=4)\<close> and \<open>json.load(f)\<close>. Both are
  modelled on text: the encoder with the layout of \<open>indent=4\<close> and the escapes of
  \<open>ensure_ascii\<close>, the decoder as the scanner of the module with its strict string
  rules, its number pattern and its handling of whitespace. The names are those of the
  module. The literals \<open>NaN\<close> and \<open>Infinity\<close>, which are not JSON, are not modelled, and an
  escape for a code point above 255 is refused, the text of the model being 8-bit. The
  decoder keeps the literal of a float as it stands in the text. For a text that the encoder
  wrote this is the float that was written; for another text Python carries the float
  nearest to the literal, whose \<open>repr\<close> can be another text (\<open>1.50\<close> is read as \<open>1.5\<close>), so
  the decoder is used for the files that the encoder wrote. The limits of the interpreter
  (recursion depth, memory) are not modelled either.
\<close>

subsection \<open>Encoding\<close>

fun show_nat :: "nat \<Rightarrow> string" where
  "show_nat n = (if n < 10 then [char_of (48 + n)] else show_nat (n div 10) @ [char_of (48 + n mod 10)])"

declare show_nat.simps [simp del]

definition int_repr :: "int \<Rightarrow> string" where
  "int_repr i = (if i < 0 then CHR ''-'' # show_nat (nat (- i)) else show_nat (nat i))"

definition hexdigit :: "nat \<Rightarrow> char" where
  "hexdigit d = (if d < 10 then char_of (48 + d) else char_of (87 + d))"

definition escape_char :: "char \<Rightarrow> string" where
  "escape_char c =
     (if c = CHR 0x22 then [CHR 0x5C, CHR 0x22]
      else if c = CHR 0x5C then [CHR 0x5C, CHR 0x5C]
      else if c = CHR 0x0A then [CHR 0x5C, CHR ''n'']
      else if c = CHR 0x0D then [CHR 0x5C, CHR ''r'']
      else if c = CHR 0x09 then [CHR 0x5C, CHR ''t'']
      else if c = CHR 0x08 then [CHR 0x5C, CHR ''b'']
      else if c = CHR 0x0C then [CHR 0x5C, CHR ''f'']
      else if (32::nat) \<le> of_char c \<and> of_char c \<le> (126::nat) then [c]
      else [CHR 0x5C, CHR ''u'', CHR ''0'', CHR ''0'',
            hexdigit (of_char c div 16), hexdigit (of_char c mod 16)])"

definition encode_basestring_ascii :: "string \<Rightarrow> string" where
  "encode_basestring_ascii s = CHR 0x22 # concat (map escape_char s) @ [CHR 0x22]"

definition newline_indent :: "nat \<Rightarrow> string" where
  "newline_indent level = CHR 0x0A # replicate (4 * level) CHR '' ''"

fun join :: "'a list \<Rightarrow> 'a list list \<Rightarrow> 'a list" where
  "join sep [] = []"
| "join sep [x] = x"
| "join sep (x # y # ys) = x @ sep @ join sep (y # ys)"

fun iterencode :: "nat \<Rightarrow> json \<Rightarrow> string" where
  "iterencode l JNull = ''null''"
| "iterencode l (JBool b) = (if b then ''true'' else ''false'')"
| "iterencode l (JInt i) = int_repr i"
| "iterencode l (JFloat r) = r"
| "iterencode l (JStr s) = encode_basestring_ascii s"
| "iterencode l (JArr xs) =
     (if xs = [] then ''[]''
      else ''['' @ newline_indent (Suc l)
           @ join ('','' @ newline_indent (Suc l)) (map (iterencode (Suc l)) xs)
           @ newline_indent l @ '']'')"
| "iterencode l (JObj kvs) =
     (if kvs = [] then ''{}''
      else ''{'' @ newline_indent (Suc l)
           @ join ('','' @ newline_indent (Suc l))
               (map (\<lambda>kv. encode_basestring_ascii (fst kv) @ '': '' @ iterencode (Suc l) (snd kv)) kvs)
           @ newline_indent l @ ''}'')"

definition json_dumps :: "json \<Rightarrow> string" where
  "json_dumps obj = iterencode 0 obj"

subsection \<open>Decoding\<close>

text \<open>
  The scanner is a recursive descent over the text. Its recursion is bounded by a counter
  that \<open>json_loads\<close> sets from the length of the text; \<open>None\<close> is a decoding error.
\<close>

definition is_ws :: "char \<Rightarrow> bool" where
  "is_ws c = (c = CHR '' '' \<or> c = CHR 0x09 \<or> c = CHR 0x0A \<or> c = CHR 0x0D)"

definition skip_ws :: "string \<Rightarrow> string" where
  "skip_ws s = dropWhile is_ws s"

definition is_digit :: "char \<Rightarrow> bool" where
  "is_digit c = ((48::nat) \<le> of_char c \<and> of_char c \<le> (57::nat))"

definition digits_value :: "string \<Rightarrow> nat" where
  "digits_value ds = foldl (\<lambda>a c. 10 * a + (of_char c - 48)) 0 ds"

definition hexval :: "char \<Rightarrow> nat option" where
  "hexval c =
     (let n = of_char c :: nat in
      if 48 \<le> n \<and> n \<le> 57 then Some (n - 48)
      else if 97 \<le> n \<and> n \<le> 102 then Some (n - 87)
      else if 65 \<le> n \<and> n \<le> 70 then Some (n - 55)
      else None)"

definition decode_uXXXX :: "char \<Rightarrow> char \<Rightarrow> char \<Rightarrow> char \<Rightarrow> char option" where
  "decode_uXXXX a b c d =
     (case (hexval a, hexval b, hexval c, hexval d) of
        (Some h3, Some h2, Some h1, Some h0) \<Rightarrow>
          (let uni = ((h3 * 16 + h2) * 16 + h1) * 16 + h0
           in if uni < 256 then Some (char_of uni) else None)
      | _ \<Rightarrow> None)"

definition backslash :: "char \<Rightarrow> char option" where
  "backslash esc =
     (if esc = CHR 0x22 then Some (CHR 0x22)
      else if esc = CHR 0x5C then Some (CHR 0x5C)
      else if esc = CHR ''/'' then Some (CHR ''/'')
      else if esc = CHR ''b'' then Some (CHR 0x08)
      else if esc = CHR ''f'' then Some (CHR 0x0C)
      else if esc = CHR ''n'' then Some (CHR 0x0A)
      else if esc = CHR ''r'' then Some (CHR 0x0D)
      else if esc = CHR ''t'' then Some (CHR 0x09)
      else None)"

fun py_scanstring :: "string \<Rightarrow> (string \<times> string) option" where
  "py_scanstring [] = None"
| "py_scanstring (c # cs) =
     (if c = CHR 0x22 then Some ([], cs)
      else if c = CHR 0x5C then
        (case cs of
           [] \<Rightarrow> None
         | esc # r \<Rightarrow>
             if esc = CHR ''u'' then
               (case r of
                  a # b # c # d # r' \<Rightarrow>
                    (case decode_uXXXX a b c d of
                       None \<Rightarrow> None
                     | Some ch \<Rightarrow> map_option (apfst ((#) ch)) (py_scanstring r'))
                | _ \<Rightarrow> None)
             else
               (case backslash esc of
                  None \<Rightarrow> None
                | Some ch \<Rightarrow> map_option (apfst ((#) ch)) (py_scanstring r)))
      else if (of_char c :: nat) < 32 then None
      else map_option (apfst ((#) c)) (py_scanstring cs))"

text \<open>The three groups of the number pattern.\<close>

definition scan_integer :: "string \<Rightarrow> (string \<times> string) option" where
  "scan_integer s =
     (let (sgn, r) = (case s of c # cs \<Rightarrow> if c = CHR ''-'' then ([c], cs) else ([], s) | [] \<Rightarrow> ([], s))
      in case r of
           [] \<Rightarrow> None
         | c # cs \<Rightarrow>
             if c = CHR ''0'' then Some (sgn @ [c], cs)
             else if is_digit c then Some (sgn @ takeWhile is_digit r, dropWhile is_digit r)
             else None)"

definition scan_frac :: "string \<Rightarrow> string \<times> string" where
  "scan_frac s =
     (case s of
        c # cs \<Rightarrow>
          if c = CHR ''.'' \<and> takeWhile is_digit cs \<noteq> []
          then (c # takeWhile is_digit cs, dropWhile is_digit cs)
          else ([], s)
      | [] \<Rightarrow> ([], s))"

definition scan_exp :: "string \<Rightarrow> string \<times> string" where
  "scan_exp s =
     (case s of
        c # cs \<Rightarrow>
          if c = CHR ''e'' \<or> c = CHR ''E'' then
            (let (sgn, r) = (case cs of d # ds \<Rightarrow> if d = CHR ''+'' \<or> d = CHR ''-'' then ([d], ds) else ([], cs)
                                      | [] \<Rightarrow> ([], cs))
             in if takeWhile is_digit r \<noteq> []
                then (c # sgn @ takeWhile is_digit r, dropWhile is_digit r)
                else ([], s))
          else ([], s)
      | [] \<Rightarrow> ([], s))"

definition int_of_literal :: "string \<Rightarrow> int" where
  "int_of_literal s =
     (case s of
        c # cs \<Rightarrow> if c = CHR ''-'' then - int (digits_value cs) else int (digits_value s)
      | [] \<Rightarrow> 0)"

definition match_number :: "string \<Rightarrow> (json \<times> string) option" where
  "match_number s =
     (case scan_integer s of
        None \<Rightarrow> None
      | Some (integer, r1) \<Rightarrow>
          (let (frac, r2) = scan_frac r1; (ex, r3) = scan_exp r2
           in if frac \<noteq> [] \<or> ex \<noteq> [] then Some (JFloat (integer @ frac @ ex), r3)
              else Some (JInt (int_of_literal integer), r3)))"

definition dict :: "(string \<times> json) list \<Rightarrow> (string \<times> json) list" where
  "dict pairs = foldl (\<lambda>d kv. AList.update (fst kv) (snd kv) d) [] pairs"

fun scan_once :: "nat \<Rightarrow> string \<Rightarrow> (json \<times> string) option"
  and JSONArray :: "nat \<Rightarrow> string \<Rightarrow> (json list \<times> string) option"
  and JSONObject :: "nat \<Rightarrow> string \<Rightarrow> ((string \<times> json) list \<times> string) option"
where
  "scan_once 0 s = None"
| "scan_once (Suc n) s =
     (case s of
        [] \<Rightarrow> None
      | c # cs \<Rightarrow>
          if c = CHR 0x22 then map_option (apfst JStr) (py_scanstring cs)
          else if c = CHR ''{'' then
            (case skip_ws cs of
               [] \<Rightarrow> None
             | d # r \<Rightarrow> if d = CHR ''}'' then Some (JObj [], r)
                        else map_option (apfst (\<lambda>pairs. JObj (dict pairs))) (JSONObject n (d # r)))
          else if c = CHR ''['' then
            (case skip_ws cs of
               [] \<Rightarrow> None
             | d # r \<Rightarrow> if d = CHR '']'' then Some (JArr [], r)
                        else map_option (apfst JArr) (JSONArray n (d # r)))
          else if take 4 s = ''null'' then Some (JNull, drop 4 s)
          else if take 4 s = ''true'' then Some (JBool True, drop 4 s)
          else if take 5 s = ''false'' then Some (JBool False, drop 5 s)
          else match_number s)"
| "JSONArray 0 s = None"
| "JSONArray (Suc n) s =
     (case scan_once n s of
        None \<Rightarrow> None
      | Some (v, r) \<Rightarrow>
          (case skip_ws r of
             [] \<Rightarrow> None
           | c # r' \<Rightarrow>
               if c = CHR '']'' then Some ([v], r')
               else if c = CHR '','' then map_option (apfst ((#) v)) (JSONArray n (skip_ws r'))
               else None))"
| "JSONObject 0 s = None"
| "JSONObject (Suc n) s =
     (case s of
        [] \<Rightarrow> None
      | q # cs \<Rightarrow>
          if q \<noteq> CHR 0x22 then None
          else
            (case py_scanstring cs of
               None \<Rightarrow> None
             | Some (key, r1) \<Rightarrow>
                 (case skip_ws r1 of
                    [] \<Rightarrow> None
                  | c # r2 \<Rightarrow>
                      if c \<noteq> CHR '':'' then None
                      else
                        (case scan_once n (skip_ws r2) of
                           None \<Rightarrow> None
                         | Some (v, r3) \<Rightarrow>
                             (case skip_ws r3 of
                                [] \<Rightarrow> None
                              | e # r4 \<Rightarrow>
                                  if e = CHR ''}'' then Some ([(key, v)], r4)
                                  else if e = CHR '','' then
                                    map_option (apfst ((#) (key, v))) (JSONObject n (skip_ws r4))
                                  else None)))))"


definition json_loads :: "string \<Rightarrow> exn + json" where
  "json_loads s =
     (case scan_once (Suc (length s)) (skip_ws s) of
        None \<Rightarrow> Inl JSONDecodeError
      | Some (obj, r) \<Rightarrow> if skip_ws r = [] then Inr obj else Inl JSONDecodeError)"

section \<open>pandas\<close>

text \<open>
  A table is its named columns, in order; a cell is the value it was built from (the
  conversion of columns to numeric types is not modelled). The columns of a table that the
  constructor below builds have one common length, which is the number of rows; \<open>rows\<close>
  reads a table of that kind.
\<close>

datatype dataframe = DataFrame (columns: "(string \<times> json list) list")

definition column_names :: "dataframe \<Rightarrow> string list" where
  "column_names df = map fst (columns df)"

definition rows :: "dataframe \<Rightarrow> json list list" where
  "rows df =
     (case columns df of
        [] \<Rightarrow> []
      | c # cs \<Rightarrow> map (\<lambda>i. map (\<lambda>col. snd col ! i) (columns df)) [0..<length (snd c)])"

text \<open>
  What the embedding leaves open of pandas: the table that the constructor builds when
  some column is not a list (scalars are broadcast, dictionaries are indexed by their
  keys), and the text that \<open>to_csv(path, index=False)\<close> writes for a table. Every theorem
  holds for all values of both.
\<close>

record pandas =
  DataFrame_other :: "(string \<times> json) list \<Rightarrow> exn + dataframe"
  to_csv :: "dataframe \<Rightarrow> string"

definition is_list :: "json \<Rightarrow> bool" where
  "is_list v = (case v of JArr xs \<Rightarrow> True | _ \<Rightarrow> False)"

definition list_items :: "json \<Rightarrow> json list" where
  "list_items v = (case v of JArr xs \<Rightarrow> xs | _ \<Rightarrow> [])"

text \<open>
  \<open>pd.DataFrame(data)\<close> for a dictionary of columns: lists of one common length make the
  table, lists of different lengths are refused with a \<open>ValueError\<close>
  ("All arrays must be of the same length").
\<close>

definition pd_DataFrame :: "pandas \<Rightarrow> (string \<times> json) list \<Rightarrow> exn + dataframe" where
  "pd_DataFrame pd data =
     (if list_all (\<lambda>kv. is_list (snd kv)) data then
        (if 1 < length (remdups (map (\<lambda>kv. length (list_items (snd kv))) data))
         then Inl ValueError
         else Inr (DataFrame (map (\<lambda>kv. (fst kv, list_items (snd kv))) data)))
      else DataFrame_other pd data)"

section \<open>extract.py\<close>

record WeatherDataRepository =
  storage_path :: string

definition WeatherDataRepository_init :: WeatherDataRepository where
  "WeatherDataRepository_init = \<lparr>storage_path = ''data/weather_data.json''\<rparr>"

text \<open>\<open>WeatherDataRepository.save\<close> of extract.py (lines 35 to 38).\<close>

definition save_raw :: "WeatherDataRepository \<Rightarrow> json \<Rightarrow> unit io" where
  "save_raw self data =
     io_bind (os_makedirs (os_path_dirname (storage_path self)))
       (\<lambda>_. write_text (storage_path self) (json_dumps data))"

text \<open>
  The response that a fetcher returns, as far as \<open>task\<close> reads it: the attribute
  \<open>status_code\<close>, and what the method \<open>json()\<close> does, which is to return the document
  that the HTTP library decodes from the body, or to raise the exception of that library
  for a body that is not JSON. A float of the decoded document is the float nearest to its
  literal in the body, carried here as its \<open>repr\<close> like every float.
\<close>

record Response =
  status_code :: int
  json_outcome :: "exn + json"

definition Response_json :: "Response \<Rightarrow> json io" where
  "Response_json response = io_result (json_outcome response)"

text \<open>
  \<open>WeatherService\<close> holds a fetcher, any object with a method \<open>fetch(latitude, longitude)\<close>,
  and a repository. The coordinates are only handed to the fetcher.
\<close>

record 'c WeatherService =
  fetcher :: "'c \<Rightarrow> 'c \<Rightarrow> Response io"
  repository :: WeatherDataRepository

text \<open>The inner function \<open>task\<close> of \<open>fetch_and_save_weather_data\<close> (lines 47 to 54).\<close>

definition task :: "'c WeatherService \<Rightarrow> 'c \<Rightarrow> 'c \<Rightarrow> unit io" where
  "task self latitude longitude =
     io_bind (fetcher self latitude longitude) (\<lambda>response.
       if status_code response = 200 then
         io_bind (Response_json response) (\<lambda>data.
         io_bind (save_raw (repository self) data) (\<lambda>_.
         py_print FetchedAndSaved))
       else py_print (FailedToFetch (status_code response)))"

text \<open>
  \<open>thread = threading.Thread(target=task); thread.start(); thread.join()\<close>: the caller
  waits for the worker. An exception that leaves the target ends the worker, is reported
  on standard error and does not reach the caller.
\<close>

definition thread_start_join :: "unit io \<Rightarrow> unit io" where
  "thread_start_join target w =
     (case target w of
        (Inl e, w') \<Rightarrow> (Inr (), w'\<lparr>stderr := stderr w' @ [e]\<rparr>)
      | (Inr u, w') \<Rightarrow> (Inr (), w'))"

definition fetch_and_save_weather_data :: "'c WeatherService \<Rightarrow> 'c \<Rightarrow> 'c \<Rightarrow> unit io" where
  "fetch_and_save_weather_data self latitude longitude =
     thread_start_join (task self latitude longitude)"

section \<open>transform.py\<close>

text \<open>\<open>WeatherDataRepository.load\<close> (lines 12 to 18).\<close>

definition load :: "WeatherDataRepository \<Rightarrow> json io" where
  "load self w =
     (if \<not> os_path_exists w (storage_path self)
      then (Inl (FileNotFoundError (storage_path self)), w)
      else io_bind (read_text (storage_path self)) (\<lambda>txt. io_result (json_loads txt)) w)"

text \<open>\<open>WeatherDataRepository.save\<close> of transform.py (lines 20 to 24), with its default for
  \<open>output_path\<close>.\<close>

definition default_output_path :: string where
  "default_output_path = ''data/processed_weather.csv''"

definition save_processed :: "pandas \<Rightarrow> dataframe \<Rightarrow> string \<Rightarrow> unit io" where
  "save_processed pd df output_path =
     io_bind (os_makedirs (os_path_dirname output_path)) (\<lambda>_.
     io_bind (write_text output_path (to_csv pd df)) (\<lambda>_.
     py_print (ProcessedSaved output_path)))"

text \<open>Subscription \<open>obj[key]\<close> with a string key: only a dictionary has string keys.\<close>

definition getitem :: "json \<Rightarrow> string \<Rightarrow> exn + json" where
  "getitem obj key =
     (case obj of
        JObj kvs \<Rightarrow> (case map_of kvs key of None \<Rightarrow> Inl (KeyError key) | Some v \<Rightarrow> Inr v)
      | _ \<Rightarrow> Inl TypeError)"

definition getitem2 :: "json \<Rightarrow> string \<Rightarrow> string \<Rightarrow> exn + json" where
  "getitem2 obj k1 k2 = (case getitem obj k1 of Inl e \<Rightarrow> Inl e | Inr v \<Rightarrow> getitem v k2)"

definition Temperature_C :: string where
  "Temperature_C = ''Temperature ('' @ [CHR 0xB0] @ ''C)''"

text \<open>\<open>OpenMeteoTransformer.transform\<close> (lines 33 to 51): the body of its \<open>try\<close>, then the
  whole method with the clause \<open>except KeyError\<close>.\<close>

definition transform_try :: "pandas \<Rightarrow> json \<Rightarrow> dataframe option io" where
  "transform_try pd raw_data =
     io_bind (io_result (getitem2 raw_data ''hourly'' ''time'')) (\<lambda>timestamps.
     io_bind (io_result (getitem2 raw_data ''hourly'' ''temperature_2m'')) (\<lambda>temperatures.
     io_bind (io_result (getitem2 raw_data ''hourly'' ''precipitation'')) (\<lambda>precipitation.
     io_bind (io_result (pd_DataFrame pd
        [(''Timestamp'', timestamps),
         (Temperature_C, temperatures),
         (''Precipitation (mm)'', precipitation)])) (\<lambda>df.
     io_bind (py_print TransformationSuccessful) (\<lambda>_.
     io_return (Some df))))))"

definition transform :: "pandas \<Rightarrow> json \<Rightarrow> dataframe option io" where
  "transform pd raw_data =
     io_try_except (transform_try pd raw_data)
       (\<lambda>e. case e of
              KeyError k \<Rightarrow> Some (io_bind (py_print (MissingKey k)) (\<lambda>_. io_return None))
            | _ \<Rightarrow> None)"

text \<open>
  \<open>WeatherTransformationCommand.execute\<close> (lines 59 to 67). The command holds a repository
  and a transformer, any objects with the methods \<open>load\<close>, \<open>save\<close> and \<open>transform\<close>; they
  are the three arguments. The clause \<open>except Exception\<close> matches every exception.
\<close>

definition execute :: "'r io \<Rightarrow> ('r \<Rightarrow> 't option io) \<Rightarrow> ('t \<Rightarrow> unit io) \<Rightarrow> unit io" where
  "execute repository_load transformer_transform repository_save =
     io_try_except
       (io_bind repository_load (\<lambda>raw_data.
        io_bind (transformer_transform raw_data) (\<lambda>df.
        case df of None \<Rightarrow> io_return () | Some d \<Rightarrow> repository_save d)))
       (\<lambda>e. Some (py_print (ErrorDuringTransformation e)))"

text \<open>The command of the program: the repository of transform.py and the Open-Meteo
  transformer.\<close>

definition command_execute :: "pandas \<Rightarrow> WeatherDataRepository \<Rightarrow> unit io" where
  "command_execute pd repo =
     execute (load repo) (transform pd) (\<lambda>df. save_processed pd df default_output_path)"

text \<open>
  \<open>WeatherTransformationService.transform_and_save\<close> (lines 75 to 80): the command runs
  on a worker of the pool and \<open>future.result()\<close> hands its outcome, an exception included,
  to the caller.
\<close>

definition transform_and_save :: "pandas \<Rightarrow> WeatherDataRepository \<Rightarrow> unit io" where
  "transform_and_save pd repo = command_execute pd repo"

section \<open>Terms of the statements\<close>

text \<open>The world after the command has reported an exception (line 67).\<close>

definition report :: "exn \<Rightarrow> world \<Rightarrow> world" where
  "report e w = w\<lparr>stdout := stdout w @ [ErrorDuringTransformation e]\<rparr>"

text \<open>
  The key that the subscriptions of lines 36 to 38 miss first, for a document \<open>doc\<close> whose
  entry \<open>hourly\<close>, if it has one, is the dictionary \<open>h\<close>.
\<close>

definition first_missing :: "(string \<times> json) list \<Rightarrow> (string \<times> json) list \<Rightarrow> string" where
  "first_missing doc h =
     (if map_of doc ''hourly'' = None then ''hourly''
      else if map_of h ''time'' = None then ''time''
      else if map_of h ''temperature_2m'' = None then ''temperature_2m''
      else ''precipitation'')"

subsection \<open>Concrete inputs\<close>

definition empty_world :: world where
  "empty_world = \<lparr>files = Map.empty, dirs = {}, stdout = [], stderr = []\<rparr>"

definition example_pandas :: pandas where
  "example_pandas = \<lparr>DataFrame_other = (\<lambda>data. Inl ValueError),
                      to_csv = (\<lambda>df. join '','' (column_names df))\<rparr>"

definition world_with_raw :: "json \<Rightarrow> world" where
  "world_with_raw d =
     empty_world\<lparr>files := [''data/weather_data.json'' \<mapsto> json_dumps d], dirs := {''data''}\<rparr>"

definition happy_document :: json where
  "happy_document =
     JObj [(''hourly'', JObj [(''time'', JArr [JStr ''2024-01-01T00:00'']),
                              (''temperature_2m'', JArr [JFloat ''5.0'']),
                              (''precipitation'', JArr [JFloat ''0.0''])])]"

definition missing_document :: json where
  "missing_document = JObj [(''hourly'', JObj [(''time'', JArr [])])]"

definition unequal_document :: json where
  "unequal_document =
     JObj [(''hourly'',
            JObj [(''time'', JArr [JStr ''2024-01-01T00:00'', JStr ''2024-01-01T01:00'']),
                  (''temperature_2m'', JArr [JFloat ''5.0'']),
                  (''precipitation'', JArr [JFloat ''0.0'', JFloat ''0.1''])])]"

definition stub_service :: "int \<Rightarrow> exn + json \<Rightarrow> unit WeatherService" where
  "stub_service code decoded =
     \<lparr>fetcher = (\<lambda>latitude longitude.
        io_return \<lparr>status_code = code, json_outcome = decoded\<rparr>),
      repository = WeatherDataRepository_init\<rparr>"

definition happy_table :: dataframe where
  "happy_table = DataFrame [(''Timestamp'', [JStr ''2024-01-01T00:00'']),
                            (Temperature_C, [JFloat ''5.0'']),
                            (''Precipitation (mm)'', [JFloat ''0.0''])]"

subsection \<open>Documents that the json module writes and reads back\<close>

text \<open>
  A float literal is a text that the number pattern matches as a whole and as a float. A
  document is valid when its floats are float literals and the keys of each of its
  dictionaries are distinct, as the keys of a Python dictionary are.
\<close>

definition float_literal :: "string \<Rightarrow> bool" where
  "float_literal t = (match_number t = Some (JFloat t, []))"

fun valid :: "json \<Rightarrow> bool" where
  "valid (JFloat t) = float_literal t"
| "valid (JArr xs) = list_all valid xs"
| "valid (JObj kvs) = (distinct (map fst kvs) \<and> list_all (\<lambda>kv. valid (snd kv)) kvs)"
| "valid v = True"

text \<open>A value of the counter that suffices to scan the encoding of a document.\<close>

fun fuel :: "json \<Rightarrow> nat" where
  "fuel (JArr xs) = Suc (sum_list (map (\<lambda>x. Suc (fuel x)) xs))"
| "fuel (JObj kvs) = Suc (sum_list (map (\<lambda>kv. Suc (fuel (snd kv))) kvs))"
| "fuel v = 1"

text \<open>
  Characters at the borders of the encodings: what may follow a number for the number
  pattern to stop there, what a number starts with, what an encoded value starts with, and
  a text that does not start with a digit.
\<close>

definition number_end :: "string \<Rightarrow> bool" where
  "number_end rest =
     (case rest of
        [] \<Rightarrow> True
      | c # cs \<Rightarrow> \<not> is_digit c \<and> c \<noteq> CHR ''.'' \<and> c \<noteq> CHR ''e'' \<and> c \<noteq> CHR ''E'' \<and>
                 c \<noteq> CHR ''+'' \<and> c \<noteq> CHR ''-'')"

definition number_start :: "char \<Rightarrow> bool" where
  "number_start c = (c = CHR ''-'' \<or> is_digit c)"

definition value_start :: "char \<Rightarrow> bool" where
  "value_start c = (\<not> is_ws c \<and> c \<noteq> CHR '']'' \<and> c \<noteq> CHR ''}'')"

definition no_digit :: "string \<Rightarrow> bool" where
  "no_digit r = (case r of [] \<Rightarrow> True | c # cs \<Rightarrow> \<not> is_digit c)"

text \<open>The encoding of one entry of a dictionary.\<close>

definition member_text :: "nat \<Rightarrow> string \<times> json \<Rightarrow> string" where
  "member_text l kv = encode_basestring_ascii (fst kv) @ '': '' @ iterencode l (snd kv)"

subsection \<open>The two statements that both save methods share\<close>

text \<open>\<open>os.makedirs(os.path.dirname(path), exist_ok=True)\<close>, then the text is written to the
  path (extract.py, lines 36 to 38; transform.py, lines 22 and 23).\<close>

definition store :: "string \<Rightarrow> string \<Rightarrow> unit io" where
  "store path txt = io_bind (os_makedirs (os_path_dirname path)) (\<lambda>_. write_text path txt)"

section \<open>Sequencing\<close>

lemma io_bind_Inr: "m w = (Inr x, w') \<Longrightarrow> io_bind m f w = f x w'"
  by (simp add: io_bind_def)

lemma io_bind_Inl: "m w = (Inl e, w') \<Longrightarrow> io_bind m f w = (Inl e, w')"
  by (simp add: io_bind_def)

lemma io_bind_result_Inr [simp]: "io_bind (io_result (Inr x)) f w = f x w"
  by (simp add: io_bind_def io_result_def)

lemma io_bind_result_Inl [simp]: "io_bind (io_result (Inl e)) f w = (Inl e, w)"
  by (simp add: io_bind_def io_result_def)

section \<open>The transformer\<close>

lemma transform_try_KeyError:
  "transform_try pd raw w = (Inl (KeyError k), w') \<Longrightarrow>
   transform pd raw w = (Inr None, w'\<lparr>stdout := stdout w' @ [MissingKey k]\<rparr>)"
  by (simp add: transform_def io_try_except_def io_bind_def py_print_def io_return_def)

lemma transform_try_other:
  "transform_try pd raw w = (Inl e, w') \<Longrightarrow> \<forall>k. e \<noteq> KeyError k \<Longrightarrow>
   transform pd raw w = (Inl e, w')"
  by (cases e) (simp_all add: transform_def io_try_except_def)

lemma transform_try_Inr:
  "transform_try pd raw w = (Inr r, w') \<Longrightarrow> transform pd raw w = (Inr r, w')"
  by (simp add: transform_def io_try_except_def)

lemma transform_try_first:
  "getitem2 raw ''hourly'' ''time'' = Inl e \<Longrightarrow> transform_try pd raw w = (Inl e, w)"
  by (simp add: transform_try_def)

lemma transform_try_second:
  "getitem2 raw ''hourly'' ''time'' = Inr a \<Longrightarrow>
   getitem2 raw ''hourly'' ''temperature_2m'' = Inl e \<Longrightarrow> transform_try pd raw w = (Inl e, w)"
  by (simp add: transform_try_def)

lemma transform_try_third:
  "getitem2 raw ''hourly'' ''time'' = Inr a \<Longrightarrow>
   getitem2 raw ''hourly'' ''temperature_2m'' = Inr b \<Longrightarrow>
   getitem2 raw ''hourly'' ''precipitation'' = Inl e \<Longrightarrow> transform_try pd raw w = (Inl e, w)"
  by (simp add: transform_try_def)

lemma transform_try_frame:
  "getitem2 raw ''hourly'' ''time'' = Inr a \<Longrightarrow>
   getitem2 raw ''hourly'' ''temperature_2m'' = Inr b \<Longrightarrow>
   getitem2 raw ''hourly'' ''precipitation'' = Inr c \<Longrightarrow>
   transform_try pd raw w =
     (case pd_DataFrame pd [(''Timestamp'', a), (Temperature_C, b), (''Precipitation (mm)'', c)] of
        Inl e \<Rightarrow> (Inl e, w)
      | Inr df \<Rightarrow> (Inr (Some df), w\<lparr>stdout := stdout w @ [TransformationSuccessful]\<rparr>))"
  by (simp add: transform_try_def io_bind_def io_result_def py_print_def io_return_def
      split: sum.splits)

lemma load_world_with_raw:
  "json_loads (json_dumps d) = Inr d \<Longrightarrow>
   load WeatherDataRepository_init (world_with_raw d) = (Inr d, world_with_raw d)"
  by (simp add: load_def world_with_raw_def WeatherDataRepository_init_def os_path_exists_def
      io_bind_def read_text_def io_result_def empty_world_def)

section \<open>Encoding and decoding\<close>

subsection \<open>Decimal numerals\<close>

lemma of_char_digit: "d < 10 \<Longrightarrow> of_char (char_of (48 + d)) = (48 + d :: nat)"
  by simp

lemma is_digit_char_of: "(d::nat) < 10 \<Longrightarrow> is_digit (char_of (48 + d))"
  by (simp add: is_digit_def)

lemma show_nat_digits: "list_all is_digit (show_nat n)"
proof (induction n rule: show_nat.induct)
  case (1 n)
  show ?case
  proof (cases "n < 10")
    case True
    then show ?thesis
      by (subst show_nat.simps) (simp add: is_digit_char_of)
  next
    case False
    with 1 show ?thesis
      by (subst show_nat.simps) (simp add: is_digit_char_of)
  qed
qed

lemma show_nat_nonempty: "show_nat n \<noteq> []"
  by (subst show_nat.simps) simp

lemma digits_value_snoc: "digits_value (ds @ [c]) = 10 * digits_value ds + (of_char c - 48)"
  by (simp add: digits_value_def)

lemma digits_value_show_nat: "digits_value (show_nat n) = n"
proof (induction n rule: show_nat.induct)
  case (1 n)
  show ?case
  proof (cases "n < 10")
    case True
    then show ?thesis
      by (subst show_nat.simps) (simp add: digits_value_def)
  next
    case False
    with 1 show ?thesis
      by (subst show_nat.simps) (simp add: digits_value_snoc)
  qed
qed

lemma char_of_digit_not_zero: "0 < (d::nat) \<Longrightarrow> d < 10 \<Longrightarrow> char_of (48 + d) \<noteq> CHR ''0''"
proof
  assume a: "0 < d" "d < 10" and e: "char_of (48 + d) = CHR ''0''"
  from e have "(of_char (char_of (48 + d)) :: nat) = of_char CHR ''0''"
    by (rule arg_cong)
  with a show False
    by simp
qed

lemma hd_show_nat: "0 < n \<Longrightarrow> hd (show_nat n) \<noteq> CHR ''0''"
proof (induction n rule: show_nat.induct)
  case (1 n)
  show ?case
  proof (cases "n < 10")
    case True
    with 1(2) show ?thesis
      by (subst show_nat.simps) (simp add: char_of_digit_not_zero)
  next
    case False
    then have "0 < n div 10" by simp
    with 1 False show ?thesis
      by (subst show_nat.simps) (simp add: show_nat_nonempty)
  qed
qed

subsection \<open>The number pattern stops at the end of a number\<close>

lemma number_end_takeWhile: "number_end rest \<Longrightarrow> takeWhile is_digit rest = []"
  by (cases rest) (simp_all add: number_end_def)

lemma number_end_dropWhile: "number_end rest \<Longrightarrow> dropWhile is_digit rest = rest"
  by (cases rest) (simp_all add: number_end_def)

lemma takeWhile_digits_append:
  "number_end rest \<Longrightarrow> takeWhile is_digit (s @ rest) = takeWhile is_digit s"
  by (induction s) (simp_all add: number_end_takeWhile)

lemma dropWhile_digits_append:
  "number_end rest \<Longrightarrow> dropWhile is_digit (s @ rest) = dropWhile is_digit s @ rest"
  by (induction s) (simp_all add: number_end_dropWhile)

lemma is_digit_zero: "is_digit CHR ''0''"
  by (simp add: is_digit_def)

lemma scan_integer_append:
  assumes "number_end rest" and "scan_integer s = Some (a, r)"
  shows "scan_integer (s @ rest) = Some (a, r @ rest)"
proof (cases s)
  case Nil
  with assms show ?thesis by (simp add: scan_integer_def)
next
  case (Cons c cs)
  show ?thesis
  proof (cases "c = CHR ''-''")
    case True
    show ?thesis
    proof (cases cs)
      case Nil
      with Cons True assms show ?thesis by (simp add: scan_integer_def)
    next
      case (Cons d ds)
      with \<open>s = c # cs\<close> True assms show ?thesis
        by (auto simp: scan_integer_def takeWhile_digits_append dropWhile_digits_append
            split: if_splits)
    qed
  next
    case False
    with Cons assms show ?thesis
      by (auto simp: scan_integer_def takeWhile_digits_append dropWhile_digits_append
          split: if_splits)
  qed
qed

lemma scan_frac_append:
  assumes "number_end rest" and "scan_frac s = (f, r)"
  shows "scan_frac (s @ rest) = (f, r @ rest)"
proof (cases s)
  case Nil
  with assms show ?thesis
    by (cases rest) (auto simp: scan_frac_def number_end_def)
next
  case (Cons c cs)
  with assms show ?thesis
    by (auto simp: scan_frac_def takeWhile_digits_append dropWhile_digits_append
        split: if_splits)
qed

lemma scan_exp_append:
  assumes "number_end rest" and "scan_exp s = (f, r)"
  shows "scan_exp (s @ rest) = (f, r @ rest)"
proof (cases s)
  case Nil
  with assms show ?thesis
    by (cases rest) (auto simp: scan_exp_def number_end_def)
next
  case (Cons c cs)
  note s = Cons
  show ?thesis
  proof (cases cs)
    case Nil
    with s assms show ?thesis
      by (cases rest)
         (auto simp: scan_exp_def number_end_def split: if_splits)
  next
    case (Cons d ds)
    with s assms show ?thesis
      by (auto simp: scan_exp_def takeWhile_digits_append dropWhile_digits_append
          split: if_splits)
  qed
qed

lemma match_number_append:
  assumes "number_end rest" and "match_number s = Some (v, r)"
  shows "match_number (s @ rest) = Some (v, r @ rest)"
proof -
  from assms(2) obtain a r1 where i: "scan_integer s = Some (a, r1)"
    by (auto simp: match_number_def split: option.splits)
  obtain f r2 where f: "scan_frac r1 = (f, r2)" by (cases "scan_frac r1")
  obtain x r3 where x: "scan_exp r2 = (x, r3)" by (cases "scan_exp r2")
  from assms(2) i f x have v: "r = r3"
    "v = (if f \<noteq> [] \<or> x \<noteq> [] then JFloat (a @ f @ x) else JInt (int_of_literal a))"
    by (auto simp: match_number_def split: if_splits)
  from scan_integer_append [OF assms(1) i] scan_frac_append [OF assms(1) f]
    scan_exp_append [OF assms(1) x] v
  show ?thesis
    by (simp add: match_number_def)
qed

subsection \<open>Integers and float literals are read back\<close>

lemma takeWhile_all: "list_all P xs \<Longrightarrow> takeWhile P xs = xs"
  by (induction xs) simp_all

lemma dropWhile_all: "list_all P xs \<Longrightarrow> dropWhile P xs = []"
  by (induction xs) simp_all

lemma scan_integer_show_nat: "scan_integer (show_nat n) = Some (show_nat n, [])"
proof (cases "n = 0")
  case True
  have "show_nat 0 = ''0''"
    by code_simp
  with True show ?thesis
    by (simp add: scan_integer_def)
next
  case False
  obtain c cs where s: "show_nat n = c # cs"
    using show_nat_nonempty [of n] by (cases "show_nat n") auto
  from False have "hd (show_nat n) \<noteq> CHR ''0''"
    by (simp add: hd_show_nat)
  with s have c0: "c \<noteq> CHR ''0''" by simp
  from show_nat_digits [of n] s have d: "is_digit c" "list_all is_digit cs"
    by simp_all
  from d(1) have cm: "c \<noteq> CHR ''-''"
    by (auto simp: is_digit_def)
  from s c0 cm d show ?thesis
    by (simp add: scan_integer_def takeWhile_all dropWhile_all)
qed

lemma show_nat_not_minus: "hd (show_nat n) \<noteq> CHR ''-''"
proof -
  obtain c cs where s: "show_nat n = c # cs"
    using show_nat_nonempty [of n] by (cases "show_nat n") auto
  from show_nat_digits [of n] s have "is_digit c" by simp
  then have "c \<noteq> CHR ''-''" by (auto simp: is_digit_def)
  with s show ?thesis by simp
qed

lemma scan_integer_int_repr: "scan_integer (int_repr i) = Some (int_repr i, [])"
proof (cases "i < 0")
  case False
  then show ?thesis
    by (simp add: int_repr_def scan_integer_show_nat)
next
  case True
  let ?n = "nat (- i)"
  from True have pos: "0 < ?n" by simp
  obtain c cs where s: "show_nat ?n = c # cs"
    using show_nat_nonempty [of ?n] by (cases "show_nat ?n") auto
  from pos have "hd (show_nat ?n) \<noteq> CHR ''0''"
    by (rule hd_show_nat)
  with s have c0: "c \<noteq> CHR ''0''" by simp
  from show_nat_digits [of ?n] s have d: "is_digit c" "list_all is_digit cs"
    by simp_all
  from True s c0 d show ?thesis
    by (simp add: int_repr_def scan_integer_def takeWhile_all dropWhile_all)
qed

lemma int_of_literal_int_repr: "int_of_literal (int_repr i) = i"
proof (cases "i < 0")
  case True
  then show ?thesis
    by (simp add: int_repr_def int_of_literal_def digits_value_show_nat)
next
  case False
  obtain c cs where s: "show_nat (nat i) = c # cs"
    using show_nat_nonempty [of "nat i"] by (cases "show_nat (nat i)") auto
  from show_nat_not_minus [of "nat i"] s have "c \<noteq> CHR ''-''" by simp
  with False s digits_value_show_nat [of "nat i"] show ?thesis
    by (simp add: int_repr_def int_of_literal_def)
qed

lemma match_number_int_repr: "match_number (int_repr i) = Some (JInt i, [])"
  by (simp add: match_number_def scan_integer_int_repr scan_frac_def scan_exp_def
      int_of_literal_int_repr)

lemma match_number_int:
  "number_end rest \<Longrightarrow> match_number (int_repr i @ rest) = Some (JInt i, rest)"
  using match_number_append [OF _ match_number_int_repr, of rest i] by simp

lemma match_number_float:
  "number_end rest \<Longrightarrow> float_literal t \<Longrightarrow> match_number (t @ rest) = Some (JFloat t, rest)"
  using match_number_append [of rest t "JFloat t" "[]"] by (simp add: float_literal_def)

lemma match_number_start:
  "match_number s = Some (v, r) \<Longrightarrow> \<exists>c cs. s = c # cs \<and> number_start c"
  by (cases s)
     (auto simp: match_number_def scan_integer_def number_start_def is_digit_zero
       split: option.splits if_splits list.splits)

lemma int_repr_start: "\<exists>c cs. int_repr i = c # cs \<and> number_start c"
  using match_number_start [OF match_number_int_repr] .

lemma float_literal_start: "float_literal t \<Longrightarrow> \<exists>c cs. t = c # cs \<and> number_start c"
  unfolding float_literal_def by (rule match_number_start)

subsection \<open>Strings are read back\<close>

lemma hexval_hexdigit: "d < 16 \<Longrightarrow> hexval (hexdigit d) = Some d"
  by (simp add: hexval_def hexdigit_def Let_def)

lemma hexval_zero: "hexval CHR ''0'' = Some 0"
  by (simp add: hexval_def)

lemma decode_uXXXX_escape:
  "decode_uXXXX CHR ''0'' CHR ''0'' (hexdigit (of_char c div 16)) (hexdigit (of_char c mod 16)) = Some c"
proof -
  have "(of_char c :: nat) < 256" by simp
  then have d: "(of_char c :: nat) div 16 < 16" by arith
  have m: "(of_char c :: nat) mod 16 < 16" by simp
  show ?thesis
    by (simp add: decode_uXXXX_def hexval_zero hexval_hexdigit [OF d] hexval_hexdigit [OF m])
qed

lemma py_scanstring_plain:
  "c \<noteq> CHR 0x22 \<Longrightarrow> c \<noteq> CHR 0x5C \<Longrightarrow> (32::nat) \<le> of_char c \<Longrightarrow>
   py_scanstring (c # tail) = map_option (apfst ((#) c)) (py_scanstring tail)"
  by simp

lemma py_scanstring_backslash:
  "esc \<noteq> CHR ''u'' \<Longrightarrow> backslash esc = Some c \<Longrightarrow>
   py_scanstring (CHR 0x5C # esc # tail) = map_option (apfst ((#) c)) (py_scanstring tail)"
  by simp

lemma py_scanstring_unicode:
  "decode_uXXXX a b x d = Some c \<Longrightarrow>
   py_scanstring (CHR 0x5C # CHR ''u'' # a # b # x # d # tail) =
     map_option (apfst ((#) c)) (py_scanstring tail)"
  by simp

lemma py_scanstring_escape_char:
  "py_scanstring (escape_char c @ tail) = map_option (apfst ((#) c)) (py_scanstring tail)"
proof -
  consider "c = CHR 0x22" | "c = CHR 0x5C" | "c = CHR 0x0A" | "c = CHR 0x0D" | "c = CHR 0x09"
    | "c = CHR 0x08" | "c = CHR 0x0C"
    | "c \<noteq> CHR 0x22" "c \<noteq> CHR 0x5C" "(32::nat) \<le> of_char c" "of_char c \<le> (126::nat)"
    | "c \<noteq> CHR 0x22" "c \<noteq> CHR 0x5C" "c \<noteq> CHR 0x0A" "c \<noteq> CHR 0x0D" "c \<noteq> CHR 0x09"
      "c \<noteq> CHR 0x08" "c \<noteq> CHR 0x0C" "\<not> ((32::nat) \<le> of_char c \<and> of_char c \<le> (126::nat))"
    by blast
  then show ?thesis
  proof cases
    case 1
    then show ?thesis
      by (simp add: escape_char_def py_scanstring_backslash backslash_def del: py_scanstring.simps)
  next
    case 2
    then show ?thesis
      by (simp add: escape_char_def py_scanstring_backslash backslash_def del: py_scanstring.simps)
  next
    case 3
    then show ?thesis
      by (simp add: escape_char_def py_scanstring_backslash backslash_def del: py_scanstring.simps)
  next
    case 4
    then show ?thesis
      by (simp add: escape_char_def py_scanstring_backslash backslash_def del: py_scanstring.simps)
  next
    case 5
    then show ?thesis
      by (simp add: escape_char_def py_scanstring_backslash backslash_def del: py_scanstring.simps)
  next
    case 6
    then show ?thesis
      by (simp add: escape_char_def py_scanstring_backslash backslash_def del: py_scanstring.simps)
  next
    case 7
    then show ?thesis
      by (simp add: escape_char_def py_scanstring_backslash backslash_def del: py_scanstring.simps)
  next
    case 8
    then have e: "escape_char c = [c]"
      by (auto simp: escape_char_def)
    from 8 show ?thesis
      unfolding e by (simp add: py_scanstring_plain del: py_scanstring.simps)
  next
    case 9
    then have e: "escape_char c = [CHR 0x5C, CHR ''u'', CHR ''0'', CHR ''0'',
            hexdigit (of_char c div 16), hexdigit (of_char c mod 16)]"
      by (simp add: escape_char_def)
    show ?thesis
      unfolding e
      by (simp add: py_scanstring_unicode [OF decode_uXXXX_escape] del: py_scanstring.simps)
  qed
qed

lemma py_scanstring_encoded:
  "py_scanstring (concat (map escape_char s) @ CHR 0x22 # rest) = Some (s, rest)"
  by (induction s) (simp_all add: py_scanstring_escape_char del: py_scanstring.simps, simp)

subsection \<open>Lists, dictionaries and whole documents are read back\<close>

lemma number_start_props:
  assumes "number_start c"
  shows "value_start c" "c \<noteq> CHR 0x22" "c \<noteq> CHR ''{''" "c \<noteq> CHR ''[''"
    "c \<noteq> CHR ''n''" "c \<noteq> CHR ''t''" "c \<noteq> CHR ''f''"
  using assms by (auto simp: number_start_def value_start_def is_ws_def is_digit_def)

lemma scan_once_number:
  "number_start c \<Longrightarrow> scan_once (Suc n) (c # s) = match_number (c # s)"
  by (simp add: number_start_props)

lemma iterencode_start:
  "valid v \<Longrightarrow> \<exists>c cs. iterencode l v = c # cs \<and> value_start c"
proof (cases v)
  case (JInt i)
  with int_repr_start [of i] show ?thesis
    by (auto simp: number_start_props)
next
  case (JFloat t)
  assume "valid v"
  with JFloat float_literal_start [of t] show ?thesis
    by (auto simp: number_start_props)
qed (auto simp: value_start_def is_ws_def encode_basestring_ascii_def)

lemma skip_ws_start: "value_start c \<Longrightarrow> skip_ws (c # s) = c # s"
  by (simp add: skip_ws_def value_start_def)

lemma skip_ws_newline_indent: "skip_ws (newline_indent l @ s) = skip_ws s"
proof -
  have "dropWhile is_ws (replicate k CHR '' '' @ s) = dropWhile is_ws s" for k
    by (induction k) (simp_all add: is_ws_def)
  then show ?thesis
    by (simp add: skip_ws_def newline_indent_def is_ws_def)
qed

lemma skip_ws_space: "skip_ws (CHR '' '' # s) = skip_ws s"
  by (simp add: skip_ws_def is_ws_def)

lemma skip_ws_iterencode:
  "valid v \<Longrightarrow> skip_ws (iterencode l v @ s) = iterencode l v @ s"
  using iterencode_start [of v l] by (auto simp: skip_ws_start)

lemma number_end_comma: "number_end (CHR '','' # s)"
  by (simp add: number_end_def is_digit_def)

lemma number_end_newline_indent: "number_end (newline_indent l @ s)"
  by (simp add: number_end_def newline_indent_def is_digit_def)

lemma join_start: "\<exists>t. join sep (a # as) = a @ t"
  by (cases as) simp_all

lemma update_fresh: "k \<notin> fst ` set al \<Longrightarrow> AList.update k v al = al @ [(k, v)]"
  by (induction al) auto

lemma dict_distinct_aux:
  "distinct (map fst (acc @ kvs)) \<Longrightarrow>
   foldl (\<lambda>d kv. AList.update (fst kv) (snd kv) d) acc kvs = acc @ kvs"
proof (induction kvs arbitrary: acc)
  case Nil
  then show ?case by simp
next
  case (Cons kv kvs)
  from Cons.prems have "fst kv \<notin> fst ` set acc" by auto
  then have "AList.update (fst kv) (snd kv) acc = acc @ [(fst kv, snd kv)]"
    by (rule update_fresh)
  then have "AList.update (fst kv) (snd kv) acc = acc @ [kv]"
    by simp
  moreover from Cons.prems have "distinct (map fst ((acc @ [kv]) @ kvs))" by simp
  ultimately show ?case
    using Cons.IH [of "acc @ [kv]"] by simp
qed

lemma dict_distinct: "distinct (map fst kvs) \<Longrightarrow> dict kvs = kvs"
  using dict_distinct_aux [of "[]" kvs] by (simp add: dict_def)

lemma skip_ws_close: "skip_ws (CHR '']'' # s) = CHR '']'' # s" "skip_ws (CHR ''}'' # s) = CHR ''}'' # s"
  "skip_ws (CHR '','' # s) = CHR '','' # s" "skip_ws (CHR '':'' # s) = CHR '':'' # s"
  by (simp_all add: skip_ws_def is_ws_def)

lemma JSONArray_step_last:
  assumes "scan_once m s = Some (x, r)" and "skip_ws r = CHR '']'' # rest"
  shows "JSONArray (Suc m) s = Some ([x], rest)"
  using assms by simp

lemma JSONArray_step_more:
  assumes "scan_once m s = Some (x, r)" and "skip_ws r = CHR '','' # r'"
    and "JSONArray m (skip_ws r') = Some (xs, rest)"
  shows "JSONArray (Suc m) s = Some (x # xs, rest)"
  using assms by simp

lemma JSONArray_items:
  fixes xs :: "json list"
  assumes "\<And>x l n rest. x \<in> set xs \<Longrightarrow> valid x \<Longrightarrow> number_end rest \<Longrightarrow> fuel x \<le> n \<Longrightarrow>
             scan_once n (iterencode l x @ rest) = Some (x, rest)"
    and "list_all valid xs" and "xs \<noteq> []"
    and "sum_list (map (\<lambda>x. Suc (fuel x)) xs) \<le> n"
  shows "JSONArray n (join (CHR '','' # newline_indent l) (map (iterencode l) xs)
            @ newline_indent l' @ CHR '']'' # rest) = Some (xs, rest)"
  using assms
proof (induction xs arbitrary: n)
  case Nil
  then show ?case by simp
next
  case (Cons x xs)
  from Cons.prems(4) obtain m where n: "n = Suc m" and fx: "fuel x \<le> m"
    and fxs: "sum_list (map (\<lambda>x. Suc (fuel x)) xs) \<le> m"
    by (cases n) auto
  from Cons.prems(2) have vx: "valid x" and vxs: "list_all valid xs" by simp_all
  have sc: "scan_once m (iterencode l x @ r) = Some (x, r)" if "number_end r" for r
    using Cons.prems(1) [of x r m l] vx that fx by simp
  show ?case
  proof (cases xs)
    case Nil
    have "JSONArray (Suc m) (iterencode l x @ newline_indent l' @ CHR '']'' # rest) = Some ([x], rest)"
      by (rule JSONArray_step_last [OF sc [OF number_end_newline_indent]])
         (simp add: skip_ws_newline_indent skip_ws_close)
    with Nil n show ?thesis by simp
  next
    case (Cons y ys)
    let ?tail = "join (CHR '','' # newline_indent l) (map (iterencode l) xs)
            @ newline_indent l' @ CHR '']'' # rest"
    from Cons have ne: "xs \<noteq> []" by simp
    have ih: "JSONArray m ?tail = Some (xs, rest)"
      using Cons.IH [OF _ vxs ne fxs] Cons.prems(1) by simp
    obtain t where t: "join (CHR '','' # newline_indent l) (map (iterencode l) xs) = iterencode l y @ t"
      using join_start [of "CHR '','' # newline_indent l" "iterencode l y" "map (iterencode l) ys"] Cons
      by auto
    from vxs Cons have vy: "valid y" by simp
    have sk: "skip_ws (newline_indent l @ ?tail) = ?tail"
      unfolding skip_ws_newline_indent t using skip_ws_iterencode [OF vy] by simp
    from ih have ih': "JSONArray m (skip_ws (newline_indent l @ ?tail)) = Some (xs, rest)"
      by (simp only: sk)
    have "JSONArray (Suc m) (iterencode l x @ CHR '','' # newline_indent l @ ?tail) = Some (x # xs, rest)"
      by (rule JSONArray_step_more [OF sc [OF number_end_comma] skip_ws_close(3) ih'])
    with Cons n show ?thesis by simp
  qed
qed

lemma JSONObject_step_last:
  assumes "py_scanstring cs = Some (key, r1)" and "skip_ws r1 = CHR '':'' # r2"
    and "scan_once m (skip_ws r2) = Some (v, r3)" and "skip_ws r3 = CHR ''}'' # rest"
  shows "JSONObject (Suc m) (CHR 0x22 # cs) = Some ([(key, v)], rest)"
  using assms by simp

lemma JSONObject_step_more:
  assumes "py_scanstring cs = Some (key, r1)" and "skip_ws r1 = CHR '':'' # r2"
    and "scan_once m (skip_ws r2) = Some (v, r3)" and "skip_ws r3 = CHR '','' # r4"
    and "JSONObject m (skip_ws r4) = Some (kvs, rest)"
  shows "JSONObject (Suc m) (CHR 0x22 # cs) = Some ((key, v) # kvs, rest)"
  using assms by simp

lemma member_text_unfold:
  "member_text l kv @ r =
     CHR 0x22 # (concat (map escape_char (fst kv)) @ CHR 0x22 # CHR '':'' # CHR '' '' #
       iterencode l (snd kv) @ r)"
  by (simp add: member_text_def encode_basestring_ascii_def)

lemma skip_ws_quote: "skip_ws (CHR 0x22 # s) = CHR 0x22 # s"
  by (simp add: skip_ws_def is_ws_def)

lemma JSONObject_members:
  fixes kvs :: "(string \<times> json) list"
  assumes "\<And>kv l n rest. kv \<in> set kvs \<Longrightarrow> valid (snd kv) \<Longrightarrow> number_end rest \<Longrightarrow>
             fuel (snd kv) \<le> n \<Longrightarrow>
             scan_once n (iterencode l (snd kv) @ rest) = Some (snd kv, rest)"
    and "list_all (\<lambda>kv. valid (snd kv)) kvs" and "kvs \<noteq> []"
    and "sum_list (map (\<lambda>kv. Suc (fuel (snd kv))) kvs) \<le> n"
  shows "JSONObject n (join (CHR '','' # newline_indent l) (map (member_text l) kvs)
            @ newline_indent l' @ CHR ''}'' # rest) = Some (kvs, rest)"
  using assms
proof (induction kvs arbitrary: n)
  case Nil
  then show ?case by simp
next
  case (Cons kv kvs)
  from Cons.prems(4) obtain m where n: "n = Suc m" and fx: "fuel (snd kv) \<le> m"
    and fxs: "sum_list (map (\<lambda>kv. Suc (fuel (snd kv))) kvs) \<le> m"
    by (cases n) auto
  from Cons.prems(2) have vx: "valid (snd kv)" and vxs: "list_all (\<lambda>kv. valid (snd kv)) kvs"
    by simp_all
  have sc: "scan_once m (skip_ws (CHR '' '' # iterencode l (snd kv) @ r)) = Some (snd kv, r)"
    if "number_end r" for r
    using Cons.prems(1) [of kv r m l] vx that fx
    by (simp add: skip_ws_space skip_ws_iterencode)
  have key: "py_scanstring (concat (map escape_char (fst kv)) @ CHR 0x22 # r) = Some (fst kv, r)" for r
    by (rule py_scanstring_encoded)
  show ?case
  proof (cases kvs)
    case Nil
    have "JSONObject (Suc m) (CHR 0x22 # (concat (map escape_char (fst kv)) @ CHR 0x22 # CHR '':'' # CHR '' '' #
       iterencode l (snd kv) @ newline_indent l' @ CHR ''}'' # rest)) = Some ([(fst kv, snd kv)], rest)"
      by (rule JSONObject_step_last [OF key skip_ws_close(4) sc [OF number_end_newline_indent]])
         (simp add: skip_ws_newline_indent skip_ws_close)
    with Nil n show ?thesis
      by (simp add: member_text_unfold)
  next
    case (Cons y ys)
    let ?tail = "join (CHR '','' # newline_indent l) (map (member_text l) kvs)
            @ newline_indent l' @ CHR ''}'' # rest"
    from Cons have ne: "kvs \<noteq> []" by simp
    have ih: "JSONObject m ?tail = Some (kvs, rest)"
      using Cons.IH [OF _ vxs ne fxs] Cons.prems(1) by simp
    obtain t where t: "join (CHR '','' # newline_indent l) (map (member_text l) kvs) = member_text l y @ t"
      using join_start [of "CHR '','' # newline_indent l" "member_text l y" "map (member_text l) ys"] Cons
      by auto
    have sk: "skip_ws (newline_indent l @ ?tail) = ?tail"
      unfolding skip_ws_newline_indent t by (simp add: member_text_unfold skip_ws_quote)
    from ih have ih': "JSONObject m (skip_ws (newline_indent l @ ?tail)) = Some (kvs, rest)"
      by (simp only: sk)
    have "JSONObject (Suc m) (CHR 0x22 # (concat (map escape_char (fst kv)) @ CHR 0x22 # CHR '':'' # CHR '' '' #
       iterencode l (snd kv) @ CHR '','' # newline_indent l @ ?tail)) = Some ((fst kv, snd kv) # kvs, rest)"
      by (rule JSONObject_step_more [OF key skip_ws_close(4) sc [OF number_end_comma]
            skip_ws_close(3) ih'])
    with Cons n show ?thesis
      by (simp add: member_text_unfold)
  qed
qed

lemma iterencode_JObj:
  "kvs \<noteq> [] \<Longrightarrow> iterencode l (JObj kvs) @ rest =
     CHR ''{'' # newline_indent (Suc l) @
       join (CHR '','' # newline_indent (Suc l)) (map (member_text (Suc l)) kvs) @
       newline_indent l @ CHR ''}'' # rest"
proof -
  have "(\<lambda>kv. encode_basestring_ascii (fst kv) @ '': '' @ iterencode (Suc l) (snd kv)) =
      member_text (Suc l)"
    by (rule ext) (simp add: member_text_def)
  then show "kvs \<noteq> [] \<Longrightarrow> ?thesis"
    by simp
qed

lemma iterencode_JArr:
  "xs \<noteq> [] \<Longrightarrow> iterencode l (JArr xs) @ rest =
     CHR ''['' # newline_indent (Suc l) @
       join (CHR '','' # newline_indent (Suc l)) (map (iterencode (Suc l)) xs) @
       newline_indent l @ CHR '']'' # rest"
  by simp

lemma scan_once_array:
  assumes "skip_ws cs = d # r" and "d \<noteq> CHR '']''" and "JSONArray n (d # r) = Some (xs, rest)"
  shows "scan_once (Suc n) (CHR ''['' # cs) = Some (JArr xs, rest)"
  using assms by simp

lemma scan_once_object:
  assumes "skip_ws cs = d # r" and "d \<noteq> CHR ''}''" and "JSONObject n (d # r) = Some (kvs, rest)"
  shows "scan_once (Suc n) (CHR ''{'' # cs) = Some (JObj (dict kvs), rest)"
  using assms by simp

lemma scan_once_iterencode:
  "valid v \<Longrightarrow> number_end rest \<Longrightarrow> fuel v \<le> n \<Longrightarrow>
   scan_once n (iterencode l v @ rest) = Some (v, rest)"
proof (induction v arbitrary: l n rest)
  case JNull
  then show ?case by (cases n) simp_all
next
  case (JBool b)
  then show ?case by (cases n) simp_all
next
  case (JInt i)
  from JInt obtain m where n: "n = Suc m" by (cases n) auto
  obtain c cs where s: "int_repr i = c # cs" "number_start c"
    using int_repr_start [of i] by auto
  have "scan_once (Suc m) (c # cs @ rest) = match_number (c # cs @ rest)"
    using s(2) by (rule scan_once_number)
  with s(1) match_number_int [OF JInt(2), of i] n show ?case
    by simp
next
  case (JFloat t)
  from JFloat obtain m where n: "n = Suc m" by (cases n) auto
  from JFloat(1) have fl: "float_literal t" by simp
  obtain c cs where s: "t = c # cs" "number_start c"
    using float_literal_start [OF fl] by auto
  have "scan_once (Suc m) (c # cs @ rest) = match_number (c # cs @ rest)"
    using s(2) by (rule scan_once_number)
  with s(1) match_number_float [OF JFloat(2) fl] n show ?case
    by simp
next
  case (JStr s)
  from JStr obtain m where n: "n = Suc m" by (cases n) auto
  show ?case
    unfolding n
    by (simp add: encode_basestring_ascii_def py_scanstring_encoded del: py_scanstring.simps)
next
  case (JArr xs)
  from JArr(4) obtain m where n: "n = Suc m"
    and f: "sum_list (map (\<lambda>x. Suc (fuel x)) xs) \<le> m"
    by (cases n) auto
  show ?case
  proof (cases "xs = []")
    case True
    then show ?thesis
      unfolding n by (simp add: skip_ws_close)
  next
    case False
    let ?items = "join (CHR '','' # newline_indent (Suc l)) (map (iterencode (Suc l)) xs) @
       newline_indent l @ CHR '']'' # rest"
    from JArr(2) have v: "list_all valid xs" by simp
    have items: "JSONArray m ?items = Some (xs, rest)"
      by (rule JSONArray_items [OF JArr(1) v False f])
    from False obtain y ys where xs: "xs = y # ys" by (cases xs) auto
    with v have vy: "valid y" by simp
    obtain t where t: "join (CHR '','' # newline_indent (Suc l)) (map (iterencode (Suc l)) xs) =
        iterencode (Suc l) y @ t"
      using join_start [of "CHR '','' # newline_indent (Suc l)" "iterencode (Suc l) y"
          "map (iterencode (Suc l)) ys"] xs by auto
    obtain c cs where c: "iterencode (Suc l) y = c # cs" "value_start c"
      using iterencode_start [OF vy] by blast
    have st: "?items = c # cs @ t @ newline_indent l @ CHR '']'' # rest"
      unfolding t c by simp
    have sk: "skip_ws (newline_indent (Suc l) @ ?items) =
        c # cs @ t @ newline_indent l @ CHR '']'' # rest"
      unfolding skip_ws_newline_indent st using c(2) by (rule skip_ws_start)
    from c(2) have cn: "c \<noteq> CHR '']''" by (simp add: value_start_def)
    from items have items': "JSONArray m (c # cs @ t @ newline_indent l @ CHR '']'' # rest) =
        Some (xs, rest)"
      by (simp only: st)
    have "scan_once (Suc m) (CHR ''['' # newline_indent (Suc l) @ ?items) = Some (JArr xs, rest)"
      by (rule scan_once_array [OF sk cn items'])
    with n show ?thesis
      by (simp only: iterencode_JArr [OF False])
  qed
next
  case (JObj kvs)
  from JObj(4) obtain m where n: "n = Suc m"
    and f: "sum_list (map (\<lambda>kv. Suc (fuel (snd kv))) kvs) \<le> m"
    by (cases n) auto
  from JObj(2) have d: "distinct (map fst kvs)" and v: "list_all (\<lambda>kv. valid (snd kv)) kvs"
    by simp_all
  show ?case
  proof (cases "kvs = []")
    case True
    then show ?thesis
      unfolding n by (simp add: skip_ws_close)
  next
    case False
    let ?items = "join (CHR '','' # newline_indent (Suc l)) (map (member_text (Suc l)) kvs) @
       newline_indent l @ CHR ''}'' # rest"
    have ih: "scan_once n' (iterencode l' (snd kv) @ rest') = Some (snd kv, rest')"
      if "kv \<in> set kvs" "valid (snd kv)" "number_end rest'" "fuel (snd kv) \<le> n'"
      for kv l' n' rest'
      using JObj(1) [of kv "snd kv" rest' n' l'] that by (cases kv) simp
    have items: "JSONObject m ?items = Some (kvs, rest)"
      by (rule JSONObject_members [OF ih v False f])
    from False obtain y ys where xs: "kvs = y # ys" by (cases kvs) auto
    obtain t where t: "join (CHR '','' # newline_indent (Suc l)) (map (member_text (Suc l)) kvs) =
        member_text (Suc l) y @ t"
      using join_start [of "CHR '','' # newline_indent (Suc l)" "member_text (Suc l) y"
          "map (member_text (Suc l)) ys"] xs by auto
    obtain cs where st: "?items = CHR 0x22 # cs"
      unfolding t by (simp add: member_text_unfold)
    have sk: "skip_ws (newline_indent (Suc l) @ ?items) = CHR 0x22 # cs"
      unfolding skip_ws_newline_indent st by (rule skip_ws_quote)
    from items have items': "JSONObject m (CHR 0x22 # cs) = Some (kvs, rest)"
      by (simp only: st)
    have "scan_once (Suc m) (CHR ''{'' # newline_indent (Suc l) @ ?items) = Some (JObj (dict kvs), rest)"
      by (rule scan_once_object [OF sk _ items']) simp
    with n show ?thesis
      by (simp only: iterencode_JObj [OF False] dict_distinct [OF d])
  qed
qed

subsection \<open>The counter set by the decoder suffices\<close>

lemma sum_le_join:
  assumes "\<And>x. x \<in> set xs \<Longrightarrow> g x \<le> length (f x)" and "sep \<noteq> []"
  shows "sum_list (map (\<lambda>x. Suc (g x)) xs) \<le> Suc (length (join sep (map f xs)))"
  using assms(1)
proof (induction xs)
  case Nil
  then show ?case by simp
next
  case (Cons x xs)
  from assms(2) have sep: "1 \<le> length sep" by (cases sep) simp_all
  from Cons.prems have gx: "g x \<le> length (f x)" by simp
  show ?case
  proof (cases xs)
    case Nil
    with gx show ?thesis by simp
  next
    case (Cons y ys)
    from Cons.IH Cons.prems
    have "sum_list (map (\<lambda>x. Suc (g x)) xs) \<le> Suc (length (join sep (map f xs)))"
      by simp
    with gx sep Cons show ?thesis by simp
  qed
qed

lemma fuel_le_length: "valid v \<Longrightarrow> fuel v \<le> length (iterencode l v)"
proof (induction v arbitrary: l)
  case (JInt i)
  with int_repr_start [of i] show ?case by auto
next
  case (JFloat t)
  with float_literal_start [of t] show ?case by auto
next
  case (JStr s)
  then show ?case by (simp add: encode_basestring_ascii_def)
next
  case (JArr xs)
  from JArr have a: "\<And>x. x \<in> set xs \<Longrightarrow> fuel x \<le> length (iterencode (Suc l) x)"
    by (simp add: list_all_iff)
  have b: "CHR '','' # newline_indent (Suc l) \<noteq> []"
    by simp
  have "sum_list (map (\<lambda>x. Suc (fuel x)) xs)
      \<le> Suc (length (join (CHR '','' # newline_indent (Suc l)) (map (iterencode (Suc l)) xs)))"
    using a b by (rule sum_le_join)
  then show ?case
    by (simp add: newline_indent_def)
next
  case (JObj kvs)
  have "fuel (snd kv) \<le> length (member_text (Suc l) kv)" if "kv \<in> set kvs" for kv
  proof -
    from that JObj(2) have "valid (snd kv)" by (simp add: list_all_iff)
    with JObj(1) [of kv "snd kv" "Suc l"] that
    have "fuel (snd kv) \<le> length (iterencode (Suc l) (snd kv))"
      by (cases kv) simp
    then show ?thesis by (simp add: member_text_def)
  qed
  moreover have "CHR '','' # newline_indent (Suc l) \<noteq> []"
    by simp
  ultimately have "sum_list (map (\<lambda>kv. Suc (fuel (snd kv))) kvs)
      \<le> Suc (length (join (CHR '','' # newline_indent (Suc l)) (map (member_text (Suc l)) kvs)))"
    by (rule sum_le_join)
  moreover have "(\<lambda>kv. encode_basestring_ascii (fst kv) @ '': '' @ iterencode (Suc l) (snd kv)) =
      member_text (Suc l)"
    by (rule ext) (simp add: member_text_def)
  ultimately show ?case
    by (simp add: newline_indent_def)
qed simp_all

lemma json_loads_dumps: "valid v \<Longrightarrow> json_loads (json_dumps v) = Inr v"
proof -
  assume v: "valid v"
  have e: "number_end []" by (simp add: number_end_def)
  from fuel_le_length [OF v, of 0] have f: "fuel v \<le> Suc (length (iterencode 0 v))"
    by simp
  from scan_once_iterencode [OF v e f, of 0] skip_ws_iterencode [OF v, of 0 "[]"]
  show ?thesis
    by (simp add: json_loads_def json_dumps_def skip_ws_def)
qed

subsection \<open>What the scanner returns is valid\<close>

lemma takeWhile_digits_prefix:
  "no_digit r \<Longrightarrow> takeWhile is_digit (takeWhile is_digit xs @ r) = takeWhile is_digit xs"
  by (induction xs) (auto simp: no_digit_def split: list.splits)

lemma dropWhile_digits_prefix:
  "no_digit r \<Longrightarrow> dropWhile is_digit (takeWhile is_digit xs @ r) = r"
  by (induction xs) (auto simp: no_digit_def split: list.splits)

lemma is_digit_not_minus: "is_digit c \<Longrightarrow> c \<noteq> CHR ''-''"
  by (auto simp: is_digit_def)

lemma scan_integer_prefix:
  assumes "scan_integer s = Some (a, r1)" and "no_digit r"
  shows "scan_integer (a @ r) = Some (a, r)"
proof (cases s)
  case Nil
  with assms show ?thesis by (simp add: scan_integer_def)
next
  case (Cons c cs)
  show ?thesis
  proof (cases "c = CHR ''-''")
    case True
    with Cons assms(1) obtain d ds where cs: "cs = d # ds"
      by (cases cs) (auto simp: scan_integer_def)
    from Cons True cs assms show ?thesis
      by (auto simp: scan_integer_def takeWhile_digits_prefix dropWhile_digits_prefix
          split: if_splits)
  next
    case False
    with Cons assms show ?thesis
      by (auto simp: scan_integer_def takeWhile_digits_prefix dropWhile_digits_prefix
          is_digit_not_minus split: if_splits)
  qed
qed

lemma scan_frac_shape:
  assumes "scan_frac s = (f, r2)"
  shows "f = [] \<or> (\<exists>ds. f = CHR ''.'' # takeWhile is_digit ds \<and> takeWhile is_digit ds \<noteq> [])"
  using assms by (cases s) (auto simp: scan_frac_def split: if_splits)

lemma scan_frac_prefix:
  assumes "scan_frac s = (f, r2)" and "f \<noteq> []" and "no_digit r"
  shows "scan_frac (f @ r) = (f, r)"
  using scan_frac_shape [OF assms(1)] assms(2,3)
  by (auto simp: scan_frac_def takeWhile_digits_prefix dropWhile_digits_prefix)

lemma dropWhile_takeWhile_same: "dropWhile P (takeWhile P xs) = []"
  by (induction xs) auto

lemma scan_exp_prefix:
  assumes "scan_exp s = (x, r3)" and "x \<noteq> []"
  shows "scan_exp x = (x, []) \<and> (\<exists>t. x = CHR ''e'' # t \<or> x = CHR ''E'' # t)"
proof (cases s)
  case Nil
  with assms show ?thesis by (simp add: scan_exp_def)
next
  case (Cons c cs)
  note s = Cons
  show ?thesis
  proof (cases cs)
    case Nil
    with s assms show ?thesis
      by (auto simp: scan_exp_def split: if_splits)
  next
    case (Cons d ds)
    with s assms show ?thesis
      by (auto simp: scan_exp_def dropWhile_takeWhile_same split: if_splits)
  qed
qed

lemma match_number_valid:
  assumes "match_number s = Some (v, r)"
  shows "valid v"
proof -
  from assms obtain a r1 where i: "scan_integer s = Some (a, r1)"
    by (auto simp: match_number_def split: option.splits)
  obtain f r2 where f: "scan_frac r1 = (f, r2)" by (cases "scan_frac r1")
  obtain x r3 where x: "scan_exp r2 = (x, r3)" by (cases "scan_exp r2")
  show ?thesis
  proof (cases "f \<noteq> [] \<or> x \<noteq> []")
    case False
    with assms i f x show ?thesis
      by (auto simp: match_number_def)
  next
    case True
    with assms i f x have v: "v = JFloat (a @ f @ x)"
      by (auto simp: match_number_def)
    have xe: "x = [] \<or> (\<exists>t. x = CHR ''e'' # t \<or> x = CHR ''E'' # t)"
      using scan_exp_prefix [OF x] by blast
    then have nx: "no_digit x"
      by (auto simp: no_digit_def is_digit_def)
    have nfx: "no_digit (f @ x)"
      using scan_frac_shape [OF f] nx by (auto simp: no_digit_def is_digit_def)
    have 1: "scan_integer (a @ f @ x) = Some (a, f @ x)"
      by (rule scan_integer_prefix [OF i nfx])
    have 2: "scan_frac (f @ x) = (f, x)"
    proof (cases "f = []")
      case True
      with xe show ?thesis
        by (auto simp: scan_frac_def)
    next
      case False
      then show ?thesis
        using scan_frac_prefix [OF f _ nx] by simp
    qed
    have 3: "scan_exp x = (x, [])"
    proof (cases "x = []")
      case True
      then show ?thesis by (simp add: scan_exp_def)
    next
      case False
      then show ?thesis using scan_exp_prefix [OF x] by simp
    qed
    from 1 2 3 True have "match_number (a @ f @ x) = Some (JFloat (a @ f @ x), [])"
      by (simp add: match_number_def)
    with v show ?thesis
      by (simp add: float_literal_def)
  qed
qed

lemma update_values:
  "list_all (\<lambda>kv. P (snd kv)) al \<Longrightarrow> P v \<Longrightarrow> list_all (\<lambda>kv. P (snd kv)) (AList.update k v al)"
  by (induction al) auto

lemma dict_valid:
  assumes "list_all (\<lambda>kv. valid (snd kv)) pairs"
  shows "valid (JObj (dict pairs))"
proof -
  have "distinct (map fst acc) \<and> list_all (\<lambda>kv. valid (snd kv)) acc \<Longrightarrow>
        list_all (\<lambda>kv. valid (snd kv)) ps \<Longrightarrow>
        distinct (map fst (foldl (\<lambda>d kv. AList.update (fst kv) (snd kv) d) acc ps)) \<and>
        list_all (\<lambda>kv. valid (snd kv)) (foldl (\<lambda>d kv. AList.update (fst kv) (snd kv) d) acc ps)"
    for acc ps
  proof (induction ps arbitrary: acc)
    case Nil
    then show ?case by simp
  next
    case (Cons p ps)
    from Cons.prems have "distinct (map fst (AList.update (fst p) (snd p) acc)) \<and>
        list_all (\<lambda>kv. valid (snd kv)) (AList.update (fst p) (snd p) acc)"
      by (simp add: distinct_update update_values)
    moreover from Cons.prems have "list_all (\<lambda>kv. valid (snd kv)) ps" by simp
    ultimately show ?case
      using Cons.IH [of "AList.update (fst p) (snd p) acc"] by simp
  qed
  from this [of "[]" pairs] assms show ?thesis
    by (simp add: dict_def)
qed

lemma scanner_valid:
  "(\<forall>s v r. scan_once n s = Some (v, r) \<longrightarrow> valid v) \<and>
   (\<forall>s xs r. JSONArray n s = Some (xs, r) \<longrightarrow> list_all valid xs) \<and>
   (\<forall>s kvs r. JSONObject n s = Some (kvs, r) \<longrightarrow> list_all (\<lambda>kv. valid (snd kv)) kvs)"
proof (induction n)
  case 0
  show ?case by simp
next
  case (Suc n)
  then have ih1: "\<And>s v r. scan_once n s = Some (v, r) \<Longrightarrow> valid v"
    and ih2: "\<And>s xs r. JSONArray n s = Some (xs, r) \<Longrightarrow> list_all valid xs"
    and ih3: "\<And>s kvs r. JSONObject n s = Some (kvs, r) \<Longrightarrow> list_all (\<lambda>kv. valid (snd kv)) kvs"
    by blast+
  have 1: "valid v" if "scan_once (Suc n) s = Some (v, r)" for s v r
  proof (cases s)
    case Nil
    with that show ?thesis by simp
  next
    case (Cons c cs)
    consider "c = CHR 0x22" | "c = CHR ''{''" | "c = CHR ''[''"
      | "c \<noteq> CHR 0x22" "c \<noteq> CHR ''{''" "c \<noteq> CHR ''[''"
      by blast
    then show ?thesis
    proof cases
      case 1
      with that Cons show ?thesis
        by (auto simp del: py_scanstring.simps)
    next
      case 2
      show ?thesis
      proof (cases "skip_ws cs")
        case Nil
        with that Cons 2 show ?thesis by simp
      next
        case (Cons d r')
        show ?thesis
        proof (cases "d = CHR ''}''")
          case True
          with that \<open>s = c # cs\<close> 2 Cons show ?thesis by auto
        next
          case False
          with that \<open>s = c # cs\<close> 2 Cons obtain pairs
            where "JSONObject n (d # r') = Some (pairs, r)" and "v = JObj (dict pairs)"
            by auto
          with ih3 [of "d # r'" pairs r] show ?thesis
            by (simp only: dict_valid)
        qed
      qed
    next
      case 3
      show ?thesis
      proof (cases "skip_ws cs")
        case Nil
        with that Cons 3 show ?thesis by simp
      next
        case (Cons d r')
        show ?thesis
        proof (cases "d = CHR '']''")
          case True
          with that \<open>s = c # cs\<close> 3 Cons show ?thesis by auto
        next
          case False
          with that \<open>s = c # cs\<close> 3 Cons obtain xs
            where "JSONArray n (d # r') = Some (xs, r)" and "v = JArr xs"
            by auto
          with ih2 [of "d # r'" xs r] show ?thesis
            by simp
        qed
      qed
    next
      case 4
      with that Cons have "v = JNull \<or> (\<exists>b. v = JBool b) \<or> match_number s = Some (v, r)"
        by (auto split: if_splits)
      then show ?thesis
        by (auto dest: match_number_valid)
    qed
  qed
  have 2: "list_all valid xs" if "JSONArray (Suc n) s = Some (xs, r)" for s xs r
  proof -
    from that obtain v r1 where sc: "scan_once n s = Some (v, r1)"
      by (auto split: option.splits)
    then have v: "valid v" by (rule ih1)
    from that sc have "xs = [v] \<or> (\<exists>ys r2. JSONArray n r2 = Some (ys, r) \<and> xs = v # ys)"
      by (auto split: list.splits if_splits)
    with v show ?thesis
      by (auto dest: ih2)
  qed
  have 3: "list_all (\<lambda>kv. valid (snd kv)) kvs" if "JSONObject (Suc n) s = Some (kvs, r)" for s kvs r
  proof -
    from that obtain key v r1 r3 where sc: "scan_once n r1 = Some (v, r3)"
      and k: "kvs = [(key, v)] \<or> (\<exists>ys r2. JSONObject n r2 = Some (ys, r) \<and> kvs = (key, v) # ys)"
      by (auto simp del: py_scanstring.simps split: option.splits list.splits if_splits) blast+
    from sc have v: "valid v" by (rule ih1)
    with k show ?thesis
      by (auto dest: ih3)
  qed
  from 1 2 3 show ?case by blast
qed

lemma json_loads_valid: "json_loads s = Inr v \<Longrightarrow> valid v"
proof -
  assume a: "json_loads s = Inr v"
  then obtain r where "scan_once (Suc (length s)) (skip_ws s) = Some (v, r)"
    by (auto simp: json_loads_def simp del: scan_once.simps split: option.splits if_splits)
  with scanner_valid [of "Suc (length s)"] show ?thesis
    by blast
qed

section \<open>Saving\<close>

lemma os_makedirs_cases:
  "os_makedirs name w = (Inr (), w\<lparr>dirs := dirs w \<union> set (ancestors name) \<union> {name}\<rparr>) \<or>
   (\<exists>e. os_makedirs name w = (Inl e, w))"
  by (simp add: os_makedirs_def)

lemma os_makedirs_again:
  "os_makedirs name w = (Inr (), w') \<Longrightarrow> os_makedirs name w' = (Inr (), w')"
  by (auto simp: os_makedirs_def split: if_splits)

lemma os_makedirs_after_write:
  assumes "os_makedirs (os_path_dirname path) w = (Inr (), w1)"
    and "write_text path txt w1 = (Inr (), w2)"
  shows "os_makedirs (os_path_dirname path) w2 = (Inr (), w2)"
  using assms
  by (auto simp: os_makedirs_def write_text_def list_ex_iff split: if_splits)

lemma write_text_twice:
  "write_text path txt w1 = (Inr (), w2) \<Longrightarrow>
   write_text path txt' w2 = write_text path txt' w1"
  by (auto simp: write_text_def split: if_splits)

lemma write_text_fails_again:
  "write_text path txt w = (Inl e, w') \<Longrightarrow> w' = w \<and> write_text path txt' w = (Inl e, w)"
  by (auto simp: write_text_def split: if_splits)

lemma write_text_content:
  "write_text path txt w = (Inr (), w') \<Longrightarrow> files w' path = Some txt"
  by (auto simp: write_text_def split: if_splits)

lemma store_twice: "store path t2 (snd (store path t1 w)) = store path t2 w"
proof (cases "os_makedirs (os_path_dirname path) w")
  case (Pair r w1)
  show ?thesis
  proof (cases r)
    case (Inl e)
    with Pair have "w1 = w"
      using os_makedirs_cases [of "os_path_dirname path" w] by auto
    with Pair Inl show ?thesis
      by (simp add: store_def io_bind_def)
  next
    case (Inr u)
    with Pair have m: "os_makedirs (os_path_dirname path) w = (Inr (), w1)"
      by simp
    show ?thesis
    proof (cases "write_text path t1 w1")
      case (Pair r2 w2)
      show ?thesis
      proof (cases r2)
        case (Inl e)
        with Pair have "w2 = w1"
          using write_text_fails_again by blast
        with m Pair Inl os_makedirs_again [OF m]
          write_text_fails_again [of path t1 w1 e w2 t2]
        show ?thesis
          by (simp add: store_def io_bind_def)
      next
        case (Inr u2)
        with Pair have wr: "write_text path t1 w1 = (Inr (), w2)"
          by simp
        from os_makedirs_after_write [OF m wr] write_text_twice [OF wr, of t2] m wr
        show ?thesis
          by (simp add: store_def io_bind_def)
      qed
    qed
  qed
qed

lemma store_content: "store path txt w = (Inr (), w') \<Longrightarrow> files w' path = Some txt"
  by (auto simp: store_def io_bind_def split: prod.splits sum.splits dest: write_text_content)

lemma store_stdout:
  "store path txt (w\<lparr>stdout := s\<rparr>) =
     (fst (store path txt w), (snd (store path txt w))\<lparr>stdout := s\<rparr>)"
  by (simp add: store_def io_bind_def os_makedirs_def write_text_def)

lemma save_raw_store: "save_raw self d = store (storage_path self) (json_dumps d)"
  by (simp add: save_raw_def store_def)

lemma save_processed_store:
  "save_processed pd df path w =
     (case store path (to_csv pd df) w of
        (Inl e, w') \<Rightarrow> (Inl e, w')
      | (Inr u, w') \<Rightarrow> (Inr (), w'\<lparr>stdout := stdout w' @ [ProcessedSaved path]\<rparr>))"
  by (simp add: save_processed_def store_def io_bind_def py_print_def split: prod.splits sum.splits)

lemma save_processed_fst: "fst (save_processed pd df path w) = fst (store path (to_csv pd df) w)"
  by (cases "store path (to_csv pd df) w") (auto simp: save_processed_store split: sum.splits)

lemma save_processed_files:
  "files (snd (save_processed pd df path w)) = files (snd (store path (to_csv pd df) w))"
  by (cases "store path (to_csv pd df) w") (auto simp: save_processed_store split: sum.splits)

lemma save_processed_dirs:
  "dirs (snd (save_processed pd df path w)) = dirs (snd (store path (to_csv pd df) w))"
  by (cases "store path (to_csv pd df) w") (auto simp: save_processed_store split: sum.splits)

lemma store_after_save_processed:
  "store path txt (snd (save_processed pd df path w)) =
     (fst (store path txt (snd (store path (to_csv pd df) w))),
      (snd (store path txt (snd (store path (to_csv pd df) w))))
        \<lparr>stdout := stdout (snd (save_processed pd df path w))\<rparr>)"
proof (cases "store path (to_csv pd df) w")
  case (Pair r w1)
  have "snd (save_processed pd df path w) = w1\<lparr>stdout := stdout (snd (save_processed pd df path w))\<rparr>"
    using Pair by (cases r) (simp_all add: save_processed_store)
  then have "store path txt (snd (save_processed pd df path w)) =
      store path txt (w1\<lparr>stdout := stdout (snd (save_processed pd df path w))\<rparr>)"
    by simp
  with Pair show ?thesis
    by (simp add: store_stdout)
qed

lemma store_succeeds:
  assumes "os_path_dirname path = d" and "d \<noteq> []" and "ancestors d = []" and "files w d = None"
    and "path \<notin> dirs w" and "path \<noteq> d" and "path \<noteq> []"
  shows "store path txt w = (Inr (), w\<lparr>dirs := dirs w \<union> {d}, files := (files w)(path \<mapsto> txt)\<rparr>)"
  using assms by (simp add: store_def io_bind_def os_makedirs_def write_text_def)

lemma dirname_raw: "os_path_dirname ''data/weather_data.json'' = ''data''"
  by (simp add: os_path_dirname_def)

lemma dirname_processed: "os_path_dirname ''data/processed_weather.csv'' = ''data''"
  by (simp add: os_path_dirname_def)

lemma ancestors_data: "ancestors ''data'' = []"
  by code_simp

lemma store_raw_empty:
  "files w ''data'' = None \<Longrightarrow> ''data/weather_data.json'' \<notin> dirs w \<Longrightarrow>
   store ''data/weather_data.json'' txt w =
     (Inr (), w\<lparr>dirs := dirs w \<union> {''data''}, files := (files w)(''data/weather_data.json'' \<mapsto> txt)\<rparr>)"
  by (rule store_succeeds [OF dirname_raw _ ancestors_data]) simp_all

lemma store_processed_empty:
  "files w ''data'' = None \<Longrightarrow> ''data/processed_weather.csv'' \<notin> dirs w \<Longrightarrow>
   store ''data/processed_weather.csv'' txt w =
     (Inr (), w\<lparr>dirs := dirs w \<union> {''data''}, files := (files w)(''data/processed_weather.csv'' \<mapsto> txt)\<rparr>)"
  by (rule store_succeeds [OF dirname_processed _ ancestors_data]) simp_all

lemma valid_happy_document: "valid happy_document"
  by code_simp


lemma json_loads_error: "json_loads s = Inl e \<Longrightarrow> e = JSONDecodeError"
  by (auto simp: json_loads_def simp del: scan_once.simps split: option.splits if_splits)

lemma load_parse_error:
  "files w (storage_path self) = Some txt \<Longrightarrow> json_loads txt = Inl e \<Longrightarrow>
   load self w = (Inl JSONDecodeError, w)"
  by (frule json_loads_error)
     (simp add: load_def os_path_exists_def io_bind_def read_text_def io_result_def)

section \<open>The claims\<close>

text \<open>
  C1: whatever the load, the transformation and the save do, \<open>execute\<close> returns normally.
  An exception raised by any of the three is caught and reported on standard output, in
  the world that the failing step left; after a transformation that returns no table the
  save is not called.
\<close>

theorem execute_contains_exceptions:
  "fst (execute l t s w) = Inr () \<and>
   execute l t s w =
     (case l w of
        (Inl e, w1) \<Rightarrow> (Inr (), report e w1)
      | (Inr raw, w1) \<Rightarrow>
          (case t raw w1 of
             (Inl e, w2) \<Rightarrow> (Inr (), report e w2)
           | (Inr None, w2) \<Rightarrow> (Inr (), w2)
           | (Inr (Some df), w2) \<Rightarrow>
               (case s df w2 of
                  (Inl e, w3) \<Rightarrow> (Inr (), report e w3)
                | (Inr u, w3) \<Rightarrow> (Inr (), w3))))"
  by (auto simp: execute_def io_try_except_def io_bind_def io_return_def py_print_def report_def
      split: prod.splits sum.splits option.splits)

theorem execute_contains_exceptions_witness:
  "command_execute example_pandas WeatherDataRepository_init empty_world =
     (Inr (), empty_world\<lparr>stdout :=
        [ErrorDuringTransformation (FileNotFoundError ''data/weather_data.json'')]\<rparr>)"
proof -
  have "load WeatherDataRepository_init empty_world =
      (Inl (FileNotFoundError ''data/weather_data.json''), empty_world)"
    by (simp add: load_def os_path_exists_def WeatherDataRepository_init_def empty_world_def)
  with execute_contains_exceptions [of "load WeatherDataRepository_init"
      "transform example_pandas" "\<lambda>df. save_processed example_pandas df default_output_path"
      empty_world]
  show ?thesis
    by (simp add: command_execute_def report_def empty_world_def)
qed

text \<open>
  C3: for a raw document that is a dictionary and lacks \<open>hourly\<close>, or whose \<open>hourly\<close> is a
  dictionary that lacks \<open>time\<close>, \<open>temperature_2m\<close> or \<open>precipitation\<close>, \<open>transform\<close> prints
  the first key missed and returns \<open>None\<close>; and a command that has loaded this document
  returns normally, having printed that line only: the save is not run, so no processed
  file is written.
\<close>

theorem transform_missing_key:
  assumes "map_of doc ''hourly'' = None \<or>
           map_of doc ''hourly'' = Some (JObj h) \<and>
             (map_of h ''time'' = None \<or> map_of h ''temperature_2m'' = None \<or>
              map_of h ''precipitation'' = None)"
  shows "transform pd (JObj doc) w =
           (Inr None, w\<lparr>stdout := stdout w @ [MissingKey (first_missing doc h)]\<rparr>) \<and>
         (l w0 = (Inr (JObj doc), w) \<longrightarrow>
          execute l (transform pd) s w0 =
            (Inr (), w\<lparr>stdout := stdout w @ [MissingKey (first_missing doc h)]\<rparr>))"
proof -
  have "transform_try pd (JObj doc) w = (Inl (KeyError (first_missing doc h)), w)"
    using assms
    by (auto simp: first_missing_def getitem2_def getitem_def
        intro: transform_try_first transform_try_second transform_try_third
        split: option.splits)
  then have t: "transform pd (JObj doc) w =
           (Inr None, w\<lparr>stdout := stdout w @ [MissingKey (first_missing doc h)]\<rparr>)"
    by (rule transform_try_KeyError)
  show ?thesis
    using t by (simp add: execute_def io_try_except_def io_bind_def io_return_def)
qed

theorem transform_missing_key_witness:
  "transform example_pandas missing_document (world_with_raw missing_document) =
     (Inr None, (world_with_raw missing_document)\<lparr>stdout := [MissingKey ''temperature_2m'']\<rparr>) \<and>
   command_execute example_pandas WeatherDataRepository_init (world_with_raw missing_document) =
     (Inr (), (world_with_raw missing_document)\<lparr>stdout := [MissingKey ''temperature_2m'']\<rparr>)"
proof -
  have "json_loads (json_dumps missing_document) = Inr missing_document"
    by code_simp
  then have "load WeatherDataRepository_init (world_with_raw missing_document) =
      (Inr missing_document, world_with_raw missing_document)"
    by (rule load_world_with_raw)
  then show ?thesis
    using transform_missing_key [of "[(''hourly'', JObj [(''time'', JArr [])])]"
        "[(''time'', JArr [])]" example_pandas "world_with_raw missing_document"
        "load WeatherDataRepository_init" "world_with_raw missing_document"
        "\<lambda>df. save_processed example_pandas df default_output_path"]
    by (simp add: missing_document_def command_execute_def first_missing_def
        world_with_raw_def empty_world_def)
qed

text \<open>
  C4: on the document with one hourly entry, \<open>transform\<close> returns the table whose columns
  are \<open>Timestamp\<close>, \<open>Temperature (\<degree>C)\<close> and \<open>Precipitation (mm)\<close>, in this order, and whose
  only row is the timestamp, 5.0 and 0.0.
\<close>

theorem transform_happy_path:
  "transform pd happy_document w =
     (Inr (Some (DataFrame [(''Timestamp'', [JStr ''2024-01-01T00:00'']),
                            (Temperature_C, [JFloat ''5.0'']),
                            (''Precipitation (mm)'', [JFloat ''0.0''])])),
      w\<lparr>stdout := stdout w @ [TransformationSuccessful]\<rparr>) \<and>
   rows (DataFrame [(''Timestamp'', [JStr ''2024-01-01T00:00'']),
                    (Temperature_C, [JFloat ''5.0'']),
                    (''Precipitation (mm)'', [JFloat ''0.0''])]) =
     [[JStr ''2024-01-01T00:00'', JFloat ''5.0'', JFloat ''0.0'']] \<and>
   column_names (DataFrame [(''Timestamp'', [JStr ''2024-01-01T00:00'']),
                    (Temperature_C, [JFloat ''5.0'']),
                    (''Precipitation (mm)'', [JFloat ''0.0''])]) =
     [''Timestamp'', ''Temperature ('' @ [CHR 0xB0] @ ''C)'', ''Precipitation (mm)'']"
proof -
  have "transform_try pd happy_document w =
     (Inr (Some (DataFrame [(''Timestamp'', [JStr ''2024-01-01T00:00'']),
                            (Temperature_C, [JFloat ''5.0'']),
                            (''Precipitation (mm)'', [JFloat ''0.0''])])),
      w\<lparr>stdout := stdout w @ [TransformationSuccessful]\<rparr>)"
    by (simp add: transform_try_def happy_document_def getitem2_def getitem_def pd_DataFrame_def
        is_list_def list_items_def io_bind_def io_result_def py_print_def io_return_def)
  then show ?thesis
    by (simp add: transform_try_Inr rows_def column_names_def Temperature_C_def)
qed

text \<open>
  C5: when the fetcher returns a response whose status code is not 200,
  \<open>fetch_and_save_weather_data\<close> returns normally, prints the failure line with that
  status code and changes nothing else: the files and directories are those that the
  fetcher left.
\<close>

theorem fetch_failed_status:
  assumes "fetcher self latitude longitude w = (Inr response, w1)"
    and "status_code response \<noteq> 200"
  shows "fetch_and_save_weather_data self latitude longitude w =
           (Inr (), w1\<lparr>stdout := stdout w1 @ [FailedToFetch (status_code response)]\<rparr>) \<and>
         files (snd (fetch_and_save_weather_data self latitude longitude w)) = files w1 \<and>
         dirs (snd (fetch_and_save_weather_data self latitude longitude w)) = dirs w1"
  using assms
  by (simp add: fetch_and_save_weather_data_def thread_start_join_def task_def io_bind_def
      py_print_def)

theorem fetch_failed_status_witness:
  "fetch_and_save_weather_data (stub_service 404 (Inl JSONDecodeError)) () () (world_with_raw happy_document) =
     (Inr (), (world_with_raw happy_document)\<lparr>stdout := [FailedToFetch 404]\<rparr>) \<and>
   files (snd (fetch_and_save_weather_data (stub_service 404 (Inl JSONDecodeError)) () ()
      (world_with_raw happy_document))) = files (world_with_raw happy_document) \<and>
   dirs (snd (fetch_and_save_weather_data (stub_service 404 (Inl JSONDecodeError)) () ()
      (world_with_raw happy_document))) = dirs (world_with_raw happy_document)"
  using fetch_failed_status [of "stub_service 404 (Inl JSONDecodeError)" "()" "()"
      "world_with_raw happy_document" "\<lparr>status_code = 404, json_outcome = Inl JSONDecodeError\<rparr>"
      "world_with_raw happy_document"]
  by (simp add: stub_service_def io_return_def world_with_raw_def empty_world_def)

text \<open>
  C7, as amended: when the three hourly entries are lists and their lengths are not all
  equal, \<open>transform\<close> builds no table: the table constructor raises \<open>ValueError\<close>, which
  the clause \<open>except KeyError\<close> does not match, and the exception reaches the caller of
  \<open>transform\<close>, nothing being printed.
\<close>

theorem transform_unequal_lengths:
  assumes "map_of doc ''hourly'' = Some (JObj h)"
    and "map_of h ''time'' = Some (JArr ts)"
    and "map_of h ''temperature_2m'' = Some (JArr temps)"
    and "map_of h ''precipitation'' = Some (JArr precs)"
    and "length ts \<noteq> length temps \<or> length temps \<noteq> length precs"
  shows "transform pd (JObj doc) w = (Inl ValueError, w)"
proof -
  have "pd_DataFrame pd [(''Timestamp'', JArr ts), (Temperature_C, JArr temps),
          (''Precipitation (mm)'', JArr precs)] = Inl ValueError"
    using assms(5) by (auto simp: pd_DataFrame_def is_list_def list_items_def)
  then have "transform_try pd (JObj doc) w = (Inl ValueError, w)"
    using assms(1-4)
    by (subst transform_try_frame [of _ "JArr ts" "JArr temps" "JArr precs"])
       (simp_all add: getitem2_def getitem_def)
  then show ?thesis
    by (rule transform_try_other) simp
qed

theorem transform_unequal_lengths_witness:
  "transform example_pandas unequal_document empty_world = (Inl ValueError, empty_world)"
  using transform_unequal_lengths [of
      "[(''hourly'',
            JObj [(''time'', JArr [JStr ''2024-01-01T00:00'', JStr ''2024-01-01T01:00'']),
                  (''temperature_2m'', JArr [JFloat ''5.0'']),
                  (''precipitation'', JArr [JFloat ''0.0'', JFloat ''0.1''])])]"
      "[(''time'', JArr [JStr ''2024-01-01T00:00'', JStr ''2024-01-01T01:00'']),
                  (''temperature_2m'', JArr [JFloat ''5.0'']),
                  (''precipitation'', JArr [JFloat ''0.0'', JFloat ''0.1''])]"
      "[JStr ''2024-01-01T00:00'', JStr ''2024-01-01T01:00'']" "[JFloat ''5.0'']"
      "[JFloat ''0.0'', JFloat ''0.1'']" example_pandas empty_world]
  by (simp add: unequal_document_def)

text \<open>
  C7, as stated, fails: on a document with two timestamps, one temperature and two
  precipitation values, \<open>transform\<close> returns no table of any kind, it raises \<open>ValueError\<close>.
\<close>

theorem transform_unequal_lengths_counterexample:
  "fst (transform example_pandas unequal_document empty_world) = Inl ValueError"
  by (simp add: transform_def io_try_except_def transform_try_def unequal_document_def
      getitem2_def getitem_def pd_DataFrame_def is_list_def list_items_def io_bind_def
      io_result_def)

text \<open>
  C8: when nothing exists at the storage path, \<open>load\<close> raises \<open>FileNotFoundError\<close>, which is
  not the exception of a decoding failure, and leaves the world as it was: in particular
  nothing exists at the path afterwards.
\<close>

theorem load_missing_file:
  assumes "\<not> os_path_exists w (storage_path self)"
  shows "load self w = (Inl (FileNotFoundError (storage_path self)), w) \<and>
         FileNotFoundError (storage_path self) \<noteq> JSONDecodeError \<and>
         \<not> os_path_exists (snd (load self w)) (storage_path self)"
  using assms by (simp add: load_def)

theorem load_missing_file_witness:
  "load WeatherDataRepository_init empty_world =
     (Inl (FileNotFoundError ''data/weather_data.json''), empty_world) \<and>
   FileNotFoundError ''data/weather_data.json'' \<noteq> JSONDecodeError \<and>
   \<not> os_path_exists (snd (load WeatherDataRepository_init empty_world)) ''data/weather_data.json''"
  using load_missing_file [of empty_world WeatherDataRepository_init]
  by (simp add: WeatherDataRepository_init_def os_path_exists_def empty_world_def)

text \<open>
  C10: the handler of \<open>transform\<close> matches \<open>KeyError\<close> only. On a document whose \<open>hourly\<close>
  entry is a list or a string, and on a document that is itself a list, the subscription
  raises \<open>TypeError\<close>, and \<open>transform\<close> raises it to its caller instead of returning \<open>None\<close>.
\<close>

theorem transform_type_error:
  "transform pd (JObj [(''hourly'', JArr xs)]) w = (Inl TypeError, w) \<and>
   transform pd (JObj [(''hourly'', JStr s)]) w = (Inl TypeError, w) \<and>
   transform pd (JArr xs) w = (Inl TypeError, w)"
  by (simp add: transform_def io_try_except_def transform_try_def
      getitem2_def getitem_def io_bind_def io_result_def)

text \<open>
  C2: when a valid document is saved by the raw repository and the save returns normally,
  \<open>load\<close> on the same storage path returns that document, and changes nothing.
\<close>

theorem save_load_roundtrip:
  assumes "valid d" and "fst (save_raw self d w) = Inr ()"
  shows "load self (snd (save_raw self d w)) = (Inr d, snd (save_raw self d w))"
proof -
  from assms(2) have "files (snd (save_raw self d w)) (storage_path self) = Some (json_dumps d)"
    using store_content [of "storage_path self" "json_dumps d" w "snd (save_raw self d w)"]
    by (cases "save_raw self d w") (simp add: save_raw_store)
  with json_loads_dumps [OF assms(1)] show ?thesis
    by (simp add: load_def os_path_exists_def io_bind_def read_text_def io_result_def)
qed

theorem save_load_roundtrip_witness:
  "valid happy_document \<and>
   fst (save_raw WeatherDataRepository_init happy_document empty_world) = Inr () \<and>
   load WeatherDataRepository_init (snd (save_raw WeatherDataRepository_init happy_document empty_world)) =
     (Inr happy_document, snd (save_raw WeatherDataRepository_init happy_document empty_world))"
proof -
  have r: "fst (save_raw WeatherDataRepository_init happy_document empty_world) = Inr ()"
    by (simp add: save_raw_store WeatherDataRepository_init_def store_raw_empty empty_world_def)
  with valid_happy_document
    save_load_roundtrip [of happy_document WeatherDataRepository_init empty_world]
  show ?thesis
    by simp
qed



text \<open>
  C9: saving a second document to the path of a raw repository after a first one has the
  outcome and leaves the world that saving the second alone does, and when that save
  returns normally the file holds the encoding of the second document and nothing else.
  The same holds for two tables saved to one processed path, for the outcome, the files
  and the directories (each save prints its own line), and the file then holds the text of
  the second table.
\<close>

theorem save_overwrites:
  "save_raw self d2 (snd (save_raw self d1 w)) = save_raw self d2 w \<and>
   (fst (save_raw self d2 (snd (save_raw self d1 w))) = Inr () \<longrightarrow>
    files (snd (save_raw self d2 (snd (save_raw self d1 w)))) (storage_path self) =
      Some (json_dumps d2)) \<and>
   fst (save_processed pd t2 path (snd (save_processed pd t1 path w))) =
     fst (save_processed pd t2 path w) \<and>
   files (snd (save_processed pd t2 path (snd (save_processed pd t1 path w)))) =
     files (snd (save_processed pd t2 path w)) \<and>
   dirs (snd (save_processed pd t2 path (snd (save_processed pd t1 path w)))) =
     dirs (snd (save_processed pd t2 path w)) \<and>
   (fst (save_processed pd t2 path (snd (save_processed pd t1 path w))) = Inr () \<longrightarrow>
    files (snd (save_processed pd t2 path (snd (save_processed pd t1 path w)))) path =
      Some (to_csv pd t2))"
proof -
  have raw: "save_raw self d2 (snd (save_raw self d1 w)) = save_raw self d2 w"
    by (simp add: save_raw_store store_twice)
  have raw_content: "files (snd (save_raw self d2 w)) (storage_path self) = Some (json_dumps d2)"
    if "fst (save_raw self d2 w) = Inr ()"
    using that store_content [of "storage_path self" "json_dumps d2" w "snd (save_raw self d2 w)"]
    by (cases "save_raw self d2 w") (simp add: save_raw_store)
  let ?one = "store path (to_csv pd t2) w"
  let ?two = "store path (to_csv pd t2) (snd (save_processed pd t1 path w))"
  have two: "fst ?two = fst ?one \<and> files (snd ?two) = files (snd ?one) \<and>
      dirs (snd ?two) = dirs (snd ?one)"
    by (simp add: store_after_save_processed store_twice)
  have content: "files (snd ?one) path = Some (to_csv pd t2)" if "fst ?one = Inr ()"
    using that store_content [of path "to_csv pd t2" w "snd ?one"]
    by (cases ?one) simp
  from raw raw_content two content show ?thesis
    by (simp add: save_processed_fst save_processed_files save_processed_dirs)
qed

theorem save_overwrites_witness:
  "fst (save_raw WeatherDataRepository_init happy_document
          (snd (save_raw WeatherDataRepository_init missing_document empty_world))) = Inr () \<and>
   files (snd (save_raw WeatherDataRepository_init happy_document
          (snd (save_raw WeatherDataRepository_init missing_document empty_world))))
     ''data/weather_data.json'' = Some (json_dumps happy_document) \<and>
   fst (save_processed example_pandas happy_table default_output_path
          (snd (save_processed example_pandas (DataFrame []) default_output_path empty_world))) =
     Inr () \<and>
   files (snd (save_processed example_pandas happy_table default_output_path
          (snd (save_processed example_pandas (DataFrame []) default_output_path empty_world))))
     default_output_path = Some (to_csv example_pandas happy_table)"
proof -
  have r: "fst (save_raw WeatherDataRepository_init happy_document empty_world) = Inr ()"
    by (simp add: save_raw_store WeatherDataRepository_init_def store_raw_empty empty_world_def)
  have p: "fst (save_processed example_pandas happy_table default_output_path empty_world) = Inr ()"
    by (simp add: save_processed_fst default_output_path_def store_processed_empty empty_world_def)
  note so = save_overwrites [of WeatherDataRepository_init happy_document missing_document
      empty_world example_pandas happy_table default_output_path "DataFrame []"]
  let ?raw2 = "save_raw WeatherDataRepository_init happy_document
          (snd (save_raw WeatherDataRepository_init missing_document empty_world))"
  let ?csv2 = "save_processed example_pandas happy_table default_output_path
          (snd (save_processed example_pandas (DataFrame []) default_output_path empty_world))"
  from so have "?raw2 = save_raw WeatherDataRepository_init happy_document empty_world"
    by (rule conjunct1)
  with r have f1: "fst ?raw2 = Inr ()"
    by simp
  with so have g1: "files (snd ?raw2) (storage_path WeatherDataRepository_init) =
      Some (json_dumps happy_document)"
    by blast
  from so have "fst ?csv2 =
      fst (save_processed example_pandas happy_table default_output_path empty_world)"
    by blast
  with p have f2: "fst ?csv2 = Inr ()"
    by simp
  with so have g2: "files (snd ?csv2) default_output_path = Some (to_csv example_pandas happy_table)"
    by blast
  from f1 g1 f2 g2 show ?thesis
    by (simp add: WeatherDataRepository_init_def)
qed

end
